theory Spec2Isabelle
  imports Complex_Main "HOL-Library.Word"
begin

section \<open>JavaScript values\<close>

text \<open>
  A JavaScript number is a finite double (a rational), an infinity or NaN.  The offsets,
  lengths and sizes the buffer works with are integers far below \<open>2 ^ 53\<close>, where double
  arithmetic is exact; the model therefore computes with exact rationals and integers.
  An argument of an untyped position (\<open>any\<close>, or a union such as
  \<open>number | BufferEncoding\<close>) is a \<open>jsval\<close>.
\<close>

datatype jsnum = Finite rat | PosInfinity | NegInfinity | NaN

datatype jsval = JSUndefined | JSNumber jsnum | JSString string

text \<open>An integer as a JavaScript number.\<close>

definition num :: "int \<Rightarrow> jsval" where
  "num i = JSNumber (Finite (of_int i))"

text \<open>The integer a number holds once it has been validated as a finite integer.\<close>

fun toInt :: "jsnum \<Rightarrow> int" where
  "toInt (Finite q) = \<lfloor>q\<rfloor>"
| "toInt _ = 0"

text \<open>\<open>value < 0\<close> and \<open>value > 0\<close> on numbers: every comparison with NaN is false.\<close>

fun js_lt0 :: "jsnum \<Rightarrow> bool" where
  "js_lt0 (Finite q) = (q < 0)"
| "js_lt0 NegInfinity = True"
| "js_lt0 _ = False"

fun js_gt0 :: "jsnum \<Rightarrow> bool" where
  "js_gt0 (Finite q) = (0 < q)"
| "js_gt0 PosInfinity = True"
| "js_gt0 _ = False"

text \<open>Truthiness of a number in a condition: \<open>0\<close> and NaN are falsy.\<close>

fun truthy :: "jsnum \<Rightarrow> bool" where
  "truthy (Finite q) = (q \<noteq> 0)"
| "truthy NaN = False"
| "truthy _ = True"

section \<open>Errors (utils.ts, ERRORS) and results\<close>

text \<open>
  The first twelve constructors are the error strings of \<open>ERRORS\<close>.  The last two are
  the errors the platform's Buffer raises by itself: a RangeError for a value, offset or
  length out of range, and a TypeError for an argument of the wrong kind.
\<close>

datatype error =
    INVALID_ENCODING
  | INVALID_SMARTBUFFER_SIZE
  | INVALID_SMARTBUFFER_BUFFER
  | INVALID_SMARTBUFFER_OBJECT
  | INVALID_OFFSET
  | INVALID_OFFSET_NON_NUMBER
  | INVALID_LENGTH
  | INVALID_LENGTH_NON_NUMBER
  | INVALID_TARGET_OFFSET
  | INVALID_TARGET_LENGTH
  | INVALID_READ_BEYOND_BOUNDS
  | INVALID_WRITE_BEYOND_BOUNDS
  | ERR_OUT_OF_RANGE
  | ERR_INVALID_ARG_TYPE

type_synonym byte = "8 word"

type_synonym Buffer = "byte list"

section \<open>The buffer instance\<close>

text \<open>
  The fields of the class \<open>SmartBuffer\<close>: the public \<open>length\<close> and the private
  \<open>_encoding\<close>, \<open>_buff\<close>, \<open>_writeOffset\<close>, \<open>_readOffset\<close> (an Isabelle name cannot
  start with an underscore, and \<open>length\<close> is the list function).  The three counters are
  JavaScript numbers that the code only ever adds, compares and assigns; they are integers
  here, and may be negative or exceed the store where the code lets them.
\<close>

record SmartBuffer =
  length_sb :: int
  encoding_sb :: string
  buff :: Buffer
  writeOffset :: int
  readOffset :: int

text \<open>
  A method either returns or throws, and in both cases leaves the instance in some state:
  the state at the moment of the throw is part of the result.
\<close>

type_synonym 'a result = "(error + 'a) \<times> SmartBuffer"

section \<open>utils.ts\<close>

definition isFinite :: "jsnum \<Rightarrow> bool" where
  "isFinite v = (case v of Finite q \<Rightarrow> True | _ \<Rightarrow> False)"

definition isInteger :: "jsnum \<Rightarrow> bool" where
  "isInteger v = (isFinite v \<and> (case v of Finite q \<Rightarrow> of_int \<lfloor>q\<rfloor> = q | _ \<Rightarrow> False))"

definition isFiniteInteger :: "jsnum \<Rightarrow> bool" where
  "isFiniteInteger v = (isFinite v \<and> isInteger v)"

text \<open>The checks return the error they throw, or \<open>None\<close> when they pass.\<close>

definition checkOffsetOrLengthValue :: "jsval \<Rightarrow> bool \<Rightarrow> error option" where
  "checkOffsetOrLengthValue v offset =
     (case v of
        JSNumber n \<Rightarrow>
          (if \<not> isFiniteInteger n \<or> js_lt0 n
           then Some (if offset then INVALID_OFFSET else INVALID_LENGTH)
           else None)
      | _ \<Rightarrow> Some (if offset then INVALID_OFFSET_NON_NUMBER else INVALID_LENGTH_NON_NUMBER))"

definition checkLengthValue :: "jsval \<Rightarrow> error option" where
  "checkLengthValue l = checkOffsetOrLengthValue l False"

definition checkOffsetValue :: "jsval \<Rightarrow> error option" where
  "checkOffsetValue offset = checkOffsetOrLengthValue offset True"

definition checkTargetOffset :: "int \<Rightarrow> SmartBuffer \<Rightarrow> error option" where
  "checkTargetOffset offset b =
     (if offset < 0 \<or> offset > length_sb b then Some INVALID_TARGET_OFFSET else None)"

text \<open>
  \<open>Buffer.isEncoding\<close> is the platform's; the names accepted here are those of the type
  \<open>BufferEncoding\<close> of utils.ts.  The platform also accepts other spellings of these
  names (upper case, further aliases), which this list leaves out; the theorems use it
  only to say that a given name is accepted.
\<close>

definition isEncoding :: "string \<Rightarrow> bool" where
  "isEncoding e = (e \<in> set [''ascii'', ''utf8'', ''utf-8'', ''utf16le'', ''ucs2'', ''ucs-2'',
     ''base64'', ''latin1'', ''binary'', ''hex''])"

definition checkEncoding :: "string \<Rightarrow> error option" where
  "checkEncoding e = (if \<not> isEncoding e then Some INVALID_ENCODING else None)"

section \<open>The platform's Buffer\<close>

text \<open>
  The primitives of \<open>node:buffer\<close> the class calls, after the Node.js documentation.  A
  Buffer is the list of its bytes.  Every mutation returns the new content of the target;
  \<open>copy\<close> reads its source before it writes, so it is correct when source and target are
  the same region (the platform copies as if through a temporary).
\<close>

text \<open>
  \<open>Buffer.allocUnsafe(size)\<close>: a region of \<open>size\<close> bytes, a fractional size truncated, of
  unspecified content.  The content is the parameter \<open>junk\<close>, byte by byte.
\<close>

definition allocUnsafe :: "(nat \<Rightarrow> byte) \<Rightarrow> rat \<Rightarrow> Buffer" where
  "allocUnsafe junk sz = map junk [0..<nat \<lfloor>sz\<rfloor>]"

text \<open>\<open>buf[i]\<close>: \<open>undefined\<close> outside the region.\<close>

definition index :: "Buffer \<Rightarrow> int \<Rightarrow> byte option" where
  "index b i = (if 0 \<le> i \<and> i < int (length b) then Some (b ! nat i) else None)"

text \<open>
  \<open>buf.slice(start, end)\<close>: a negative index counts from the end, both are clamped to
  the region, and an empty range gives the empty Buffer.
\<close>

definition slice :: "Buffer \<Rightarrow> int \<Rightarrow> int \<Rightarrow> Buffer" where
  "slice b start end =
     (let n = int (length b);
          s = (if start < 0 then max (n + start) 0 else min start n);
          e = (if end < 0 then max (n + end) 0 else min end n)
      in if e \<le> s then [] else take (nat (e - s)) (drop (nat s) b))"

text \<open>
  \<open>source.copy(target, targetStart, sourceStart, sourceEnd)\<close>: a negative argument, or
  a \<open>sourceStart\<close> beyond the source, is a RangeError; nothing is copied when
  \<open>targetStart\<close> is at or beyond the end of the target; otherwise as many bytes as the
  source range holds and the target has room for.
\<close>

definition copy :: "Buffer \<Rightarrow> Buffer \<Rightarrow> int \<Rightarrow> int \<Rightarrow> int \<Rightarrow> error + Buffer" where
  "copy source target targetStart sourceStart sourceEnd =
     (if targetStart < 0 then Inl ERR_OUT_OF_RANGE
      else if sourceStart < 0 \<or> sourceStart > int (length source) then Inl ERR_OUT_OF_RANGE
      else if sourceEnd < 0 then Inl ERR_OUT_OF_RANGE
      else if targetStart \<ge> int (length target) \<or> sourceStart \<ge> sourceEnd then Inr target
      else
        (let nb = min (min (sourceEnd - sourceStart) (int (length target) - targetStart))
                      (int (length source) - sourceStart);
             chunk = take (nat nb) (drop (nat sourceStart) source)
         in Inr (take (nat targetStart) target @ chunk
                  @ drop (nat targetStart + nat nb) target)))"

text \<open>
  \<open>buf.write(string, offset, length, encoding)\<close>, the string given by its encoded bytes:
  an offset or a length outside \<open>[0, buf.length]\<close> is a RangeError; otherwise at most
  \<open>length\<close> bytes, and no more than fit after \<open>offset\<close>, are written
  (\<open>write\<close> is a keyword of Isabelle, hence the suffix).  When the bytes do not fit,
  the platform stops at a character boundary and this model at a byte; the two agree
  whenever the bytes fit.
\<close>

definition write_str :: "Buffer \<Rightarrow> Buffer \<Rightarrow> int \<Rightarrow> int \<Rightarrow> error + Buffer" where
  "write_str target bytes offset len =
     (if offset < 0 \<or> offset > int (length target) then Inl ERR_OUT_OF_RANGE
      else if len < 0 \<or> len > int (length target) then Inl ERR_OUT_OF_RANGE
      else
        (let n = min len (int (length target) - offset);
             chunk = take (nat n) bytes
         in Inr (take (nat offset) target @ chunk
                  @ drop (nat offset + length chunk) target)))"

section \<open>Capacity (mod.ts)\<close>

text \<open>
  \<open>_ensureCapacity(minLength)\<close>.  The new size is computed in floating point,
  \<open>oldLength * 3 / 2 + 1\<close>, and truncated by the allocation.
\<close>

definition ensureCapacity :: "(nat \<Rightarrow> byte) \<Rightarrow> int \<Rightarrow> SmartBuffer \<Rightarrow> unit result" where
  "ensureCapacity junk minLength s =
     (let oldLength = int (length (buff s)) in
      if minLength > oldLength then
        (let data = buff s;
             newLength = (of_int oldLength * 3) / 2 + (1 :: rat);
             newLength = (if newLength < of_int minLength then of_int minLength else newLength);
             s1 = s\<lparr>buff := allocUnsafe junk newLength\<rparr>
         in case copy data (buff s1) 0 0 oldLength of
              Inl e \<Rightarrow> (Inl e, s1)
            | Inr b \<Rightarrow> (Inr (), s1\<lparr>buff := b\<rparr>))
      else (Inr (), s))"

text \<open>\<open>_ensureWriteable(dataLength, offset)\<close>.\<close>

definition ensureWriteable :: "(nat \<Rightarrow> byte) \<Rightarrow> int \<Rightarrow> int option \<Rightarrow> SmartBuffer \<Rightarrow> unit result" where
  "ensureWriteable junk dataLength offset s =
     (let offsetVal = (case offset of Some n \<Rightarrow> n | None \<Rightarrow> writeOffset s) in
      case ensureCapacity junk (offsetVal + dataLength) s of
        (Inl e, s1) \<Rightarrow> (Inl e, s1)
      | (Inr _, s1) \<Rightarrow>
          (if offsetVal + dataLength > length_sb s1
           then (Inr (), s1\<lparr>length_sb := offsetVal + dataLength\<rparr>)
           else (Inr (), s1)))"

text \<open>\<open>ensureInsertable(dataLength, offset)\<close>.\<close>

definition ensureInsertable :: "(nat \<Rightarrow> byte) \<Rightarrow> int \<Rightarrow> int \<Rightarrow> SmartBuffer \<Rightarrow> unit result" where
  "ensureInsertable junk dataLength offset s =
     (case checkOffsetValue (num offset) of
        Some e \<Rightarrow> (Inl e, s)
      | None \<Rightarrow>
         (case ensureCapacity junk (length_sb s + dataLength) s of
            (Inl e, s1) \<Rightarrow> (Inl e, s1)
          | (Inr _, s1) \<Rightarrow>
             (case (if offset < length_sb s1
                    then copy (buff s1) (buff s1) (offset + dataLength) offset
                           (int (length (buff s1)))
                    else Inr (buff s1)) of
                Inl e \<Rightarrow> (Inl e, s1)
              | Inr b \<Rightarrow>
                 (let s2 = s1\<lparr>buff := b\<rparr> in
                  if offset + dataLength > length_sb s2
                  then (Inr (), s2\<lparr>length_sb := offset + dataLength\<rparr>)
                  else (Inr (), s2\<lparr>length_sb := length_sb s2 + dataLength\<rparr>)))))"

text \<open>\<open>ensureReadable(length, offset)\<close>: it only checks.\<close>

definition ensureReadable :: "int \<Rightarrow> jsval \<Rightarrow> SmartBuffer \<Rightarrow> error option" where
  "ensureReadable len offset s =
     (case (case offset of
              JSUndefined \<Rightarrow> Inr (readOffset s)
            | _ \<Rightarrow> (case checkOffsetValue offset of
                      Some e \<Rightarrow> Inl e
                    | None \<Rightarrow> Inr (case offset of JSNumber n \<Rightarrow> toInt n | _ \<Rightarrow> 0))) of
        Inl e \<Rightarrow> Some e
      | Inr offsetVal \<Rightarrow>
          (if offsetVal < 0 \<or> offsetVal + len > length_sb s
           then Some INVALID_READ_BEYOND_BOUNDS else None))"

section \<open>The platform's fixed-width codec\<close>

text \<open>
  The eighteen pairs \<open>Buffer.prototype.readX\<close> / \<open>writeX\<close> the class passes to its
  generic number methods, one \<open>shape\<close> each.  A 64-bit integer is a \<open>bigint\<close>, the
  other integers are numbers; both are an \<open>IntVal\<close>.  A float or double is identified
  with its IEEE-754 bit pattern, so exactly the values representable in the shape can be
  written down; the rounding of other numbers, and the quieting of a signalling NaN that
  is read and written again, are outside this model.
\<close>

datatype shape =
    Int8 | Int16BE | Int16LE | Int32BE | Int32LE | BigInt64BE | BigInt64LE
  | UInt8 | UInt16BE | UInt16LE | UInt32BE | UInt32LE | BigUInt64BE | BigUInt64LE
  | FloatBE | FloatLE | DoubleBE | DoubleLE

datatype numval = IntVal int | FloatVal "32 word" | DoubleVal "64 word"

datatype kind = Signed | Unsigned | Float32 | Float64

text \<open>
  The byte size is the constant each public method of mod.ts passes along with the
  platform function: 1 for the 8-bit shapes, 2, 4, and 8 for the 64-bit ones and doubles.
\<close>

fun byteSize :: "shape \<Rightarrow> nat" where
  "byteSize Int8 = 1"
| "byteSize UInt8 = 1"
| "byteSize Int16BE = 2"
| "byteSize Int16LE = 2"
| "byteSize UInt16BE = 2"
| "byteSize UInt16LE = 2"
| "byteSize Int32BE = 4"
| "byteSize Int32LE = 4"
| "byteSize UInt32BE = 4"
| "byteSize UInt32LE = 4"
| "byteSize FloatBE = 4"
| "byteSize FloatLE = 4"
| "byteSize BigInt64BE = 8"
| "byteSize BigInt64LE = 8"
| "byteSize BigUInt64BE = 8"
| "byteSize BigUInt64LE = 8"
| "byteSize DoubleBE = 8"
| "byteSize DoubleLE = 8"

fun kind_of :: "shape \<Rightarrow> kind" where
  "kind_of Int8 = Signed"
| "kind_of Int16BE = Signed"
| "kind_of Int16LE = Signed"
| "kind_of Int32BE = Signed"
| "kind_of Int32LE = Signed"
| "kind_of BigInt64BE = Signed"
| "kind_of BigInt64LE = Signed"
| "kind_of FloatBE = Float32"
| "kind_of FloatLE = Float32"
| "kind_of DoubleBE = Float64"
| "kind_of DoubleLE = Float64"
| "kind_of _ = Unsigned"

fun littleEndian :: "shape \<Rightarrow> bool" where
  "littleEndian Int16LE = True"
| "littleEndian Int32LE = True"
| "littleEndian BigInt64LE = True"
| "littleEndian UInt16LE = True"
| "littleEndian UInt32LE = True"
| "littleEndian BigUInt64LE = True"
| "littleEndian FloatLE = True"
| "littleEndian DoubleLE = True"
| "littleEndian _ = False"

text \<open>The \<open>k\<close> low bytes of an integer, most significant first, and their value.\<close>

fun be_bytes :: "nat \<Rightarrow> int \<Rightarrow> Buffer" where
  "be_bytes 0 n = []"
| "be_bytes (Suc k) n = be_bytes k (n div 256) @ [word_of_int n]"

definition be_val :: "Buffer \<Rightarrow> int" where
  "be_val bs = foldl (\<lambda>a b. a * 256 + uint b) 0 bs"

definition order :: "shape \<Rightarrow> Buffer \<Rightarrow> Buffer" where
  "order sh bs = (if littleEndian sh then rev bs else bs)"

text \<open>
  The values a shape can hold: the two's-complement or unsigned range of its width for
  an integer, every bit pattern of the width for a float or double.
\<close>

definition representable :: "shape \<Rightarrow> numval \<Rightarrow> bool" where
  "representable sh v =
     (case (kind_of sh, v) of
        (Signed, IntVal i) \<Rightarrow> - (2 ^ (8 * byteSize sh - 1)) \<le> i \<and> i < 2 ^ (8 * byteSize sh - 1)
      | (Unsigned, IntVal i) \<Rightarrow> 0 \<le> i \<and> i < 2 ^ (8 * byteSize sh)
      | (Float32, FloatVal w) \<Rightarrow> True
      | (Float64, DoubleVal w) \<Rightarrow> True
      | _ \<Rightarrow> False)"

definition encode :: "shape \<Rightarrow> numval \<Rightarrow> Buffer" where
  "encode sh v =
     order sh (be_bytes (byteSize sh)
       (case v of IntVal i \<Rightarrow> i | FloatVal w \<Rightarrow> uint w | DoubleVal w \<Rightarrow> uint w))"

definition decode :: "shape \<Rightarrow> Buffer \<Rightarrow> numval" where
  "decode sh bs =
     (let u = be_val (order sh bs) in
      case kind_of sh of
        Signed \<Rightarrow> IntVal (if u \<ge> 2 ^ (8 * byteSize sh - 1) then u - 2 ^ (8 * byteSize sh) else u)
      | Unsigned \<Rightarrow> IntVal u
      | Float32 \<Rightarrow> FloatVal (word_of_int u)
      | Float64 \<Rightarrow> DoubleVal (word_of_int u))"

text \<open>
  \<open>buf.writeX(value, offset)\<close>: a value of the wrong kind is a TypeError, a value
  outside the shape's range or an offset that leaves no room for the bytes a RangeError.
  \<open>buf.readX(offset)\<close>: an offset that leaves no room is a RangeError.
\<close>

definition buf_write :: "shape \<Rightarrow> Buffer \<Rightarrow> numval \<Rightarrow> int \<Rightarrow> error + Buffer" where
  "buf_write sh b v offset =
     (if \<not> representable sh v then
        (case (kind_of sh, v) of
           (Signed, IntVal i) \<Rightarrow> Inl ERR_OUT_OF_RANGE
         | (Unsigned, IntVal i) \<Rightarrow> Inl ERR_OUT_OF_RANGE
         | _ \<Rightarrow> Inl ERR_INVALID_ARG_TYPE)
      else if offset < 0 \<or> offset + int (byteSize sh) > int (length b) then Inl ERR_OUT_OF_RANGE
      else Inr (take (nat offset) b @ encode sh v @ drop (nat offset + byteSize sh) b))"

definition buf_read :: "shape \<Rightarrow> Buffer \<Rightarrow> int \<Rightarrow> error + numval" where
  "buf_read sh b offset =
     (if offset < 0 \<or> offset + int (byteSize sh) > int (length b) then Inl ERR_OUT_OF_RANGE
      else Inr (decode sh (take (byteSize sh) (drop (nat offset) b))))"

section \<open>Numbers (mod.ts)\<close>

text \<open>\<open>_readNumberValue(func, byteSize, offset)\<close>.\<close>

definition readNumberValue ::
  "(Buffer \<Rightarrow> int \<Rightarrow> error + 'v) \<Rightarrow> int \<Rightarrow> jsval \<Rightarrow> SmartBuffer \<Rightarrow> 'v result" where
  "readNumberValue func bSize offset s =
     (case ensureReadable bSize offset s of
        Some e \<Rightarrow> (Inl e, s)
      | None \<Rightarrow>
         (case func (buff s) (case offset of JSNumber n \<Rightarrow> toInt n | _ \<Rightarrow> readOffset s) of
            Inl e \<Rightarrow> (Inl e, s)
          | Inr v \<Rightarrow>
              (Inr v, if offset = JSUndefined then s\<lparr>readOffset := readOffset s + bSize\<rparr> else s)))"

text \<open>\<open>_insertNumberValue(func, byteSize, value, offset)\<close>.\<close>

definition insertNumberValue ::
  "(nat \<Rightarrow> byte) \<Rightarrow> (Buffer \<Rightarrow> 'v \<Rightarrow> int \<Rightarrow> error + Buffer) \<Rightarrow> int \<Rightarrow> 'v \<Rightarrow> jsval
     \<Rightarrow> SmartBuffer \<Rightarrow> unit result" where
  "insertNumberValue junk func bSize v offset s =
     (case checkOffsetValue offset of
        Some e \<Rightarrow> (Inl e, s)
      | None \<Rightarrow>
         (let off = (case offset of JSNumber n \<Rightarrow> toInt n | _ \<Rightarrow> 0) in
          case ensureInsertable junk bSize off s of
            (Inl e, s1) \<Rightarrow> (Inl e, s1)
          | (Inr _, s1) \<Rightarrow>
             (case func (buff s1) v off of
                Inl e \<Rightarrow> (Inl e, s1)
              | Inr b \<Rightarrow> (Inr (), s1\<lparr>buff := b, writeOffset := writeOffset s1 + bSize\<rparr>))))"

text \<open>\<open>_writeNumberValue(func, byteSize, value, offset)\<close>.\<close>

definition writeNumberValue ::
  "(nat \<Rightarrow> byte) \<Rightarrow> (Buffer \<Rightarrow> 'v \<Rightarrow> int \<Rightarrow> error + Buffer) \<Rightarrow> int \<Rightarrow> 'v \<Rightarrow> jsval
     \<Rightarrow> SmartBuffer \<Rightarrow> unit result" where
  "writeNumberValue junk func bSize v offset s =
     (case (case offset of
              JSNumber n \<Rightarrow>
                (if js_lt0 n then Some INVALID_WRITE_BEYOND_BOUNDS else checkOffsetValue offset)
            | _ \<Rightarrow> None) of
        Some e \<Rightarrow> (Inl e, s)
      | None \<Rightarrow>
         (let offsetVal = (case offset of JSNumber n \<Rightarrow> toInt n | _ \<Rightarrow> writeOffset s) in
          case ensureWriteable junk bSize (Some offsetVal) s of
            (Inl e, s1) \<Rightarrow> (Inl e, s1)
          | (Inr _, s1) \<Rightarrow>
             (case func (buff s1) v offsetVal of
                Inl e \<Rightarrow> (Inl e, s1)
              | Inr b \<Rightarrow>
                 (Inr (),
                  case offset of
                    JSNumber n \<Rightarrow>
                      s1\<lparr>buff := b, writeOffset := max (writeOffset s1) (offsetVal + bSize)\<rparr>
                  | _ \<Rightarrow> s1\<lparr>buff := b, writeOffset := writeOffset s1 + bSize\<rparr>))))"

text \<open>
  The public number methods: \<open>readInt8\<close> \dots \<open>readDoubleLE\<close>, \<open>writeInt8\<close> \dots
  \<open>writeDoubleLE\<close>, \<open>insertInt8\<close> \dots \<open>insertDoubleLE\<close>, each the generic method at
  its platform function and byte size.  (The capability check of the 64-bit methods,
  \<open>bigIntAndBufferInt64Check\<close>, passes on a platform that has \<open>BigInt\<close>.)
\<close>

definition readNumber :: "shape \<Rightarrow> jsval \<Rightarrow> SmartBuffer \<Rightarrow> numval result" where
  "readNumber sh offset s = readNumberValue (buf_read sh) (int (byteSize sh)) offset s"

definition writeNumber ::
  "(nat \<Rightarrow> byte) \<Rightarrow> shape \<Rightarrow> numval \<Rightarrow> jsval \<Rightarrow> SmartBuffer \<Rightarrow> unit result" where
  "writeNumber junk sh v offset s =
     writeNumberValue junk (buf_write sh) (int (byteSize sh)) v offset s"

definition insertNumber ::
  "(nat \<Rightarrow> byte) \<Rightarrow> shape \<Rightarrow> numval \<Rightarrow> jsval \<Rightarrow> SmartBuffer \<Rightarrow> unit result" where
  "insertNumber junk sh v offset s =
     insertNumberValue junk (buf_write sh) (int (byteSize sh)) v offset s"

section \<open>Byte runs and strings (mod.ts)\<close>

text \<open>
  The write methods \<open>writeBuffer\<close> and \<open>writeString\<close> do not validate an explicit
  offset; it is an integer here (a fractional or non-finite offset would make the counters
  fractional, which the integer state excludes).
\<close>

text \<open>\<open>_handleBuffer(value, isInsert, offset)\<close>.\<close>

definition handleBuffer ::
  "(nat \<Rightarrow> byte) \<Rightarrow> Buffer \<Rightarrow> bool \<Rightarrow> int option \<Rightarrow> SmartBuffer \<Rightarrow> unit result" where
  "handleBuffer junk v isInsert offset s =
     (let offsetVal = (case offset of Some n \<Rightarrow> n | None \<Rightarrow> writeOffset s) in
      case (if isInsert then ensureInsertable junk (int (length v)) offsetVal s
            else ensureWriteable junk (int (length v)) (Some offsetVal) s) of
        (Inl e, s1) \<Rightarrow> (Inl e, s1)
      | (Inr _, s1) \<Rightarrow>
         (case copy v (buff s1) offsetVal 0 (int (length v)) of
            Inl e \<Rightarrow> (Inl e, s1)
          | Inr b \<Rightarrow>
             (let s2 = s1\<lparr>buff := b\<rparr> in
              (Inr (),
               if isInsert then s2\<lparr>writeOffset := writeOffset s2 + int (length v)\<rparr>
               else (case offset of
                       Some n \<Rightarrow>
                         s2\<lparr>writeOffset := max (writeOffset s2) (offsetVal + int (length v))\<rparr>
                     | None \<Rightarrow> s2\<lparr>writeOffset := writeOffset s2 + int (length v)\<rparr>)))))"

definition insertBuffer ::
  "(nat \<Rightarrow> byte) \<Rightarrow> Buffer \<Rightarrow> jsval \<Rightarrow> SmartBuffer \<Rightarrow> unit result" where
  "insertBuffer junk v offset s =
     (case checkOffsetValue offset of
        Some e \<Rightarrow> (Inl e, s)
      | None \<Rightarrow>
          handleBuffer junk v True (case offset of JSNumber n \<Rightarrow> Some (toInt n) | _ \<Rightarrow> None) s)"

definition writeBuffer ::
  "(nat \<Rightarrow> byte) \<Rightarrow> Buffer \<Rightarrow> int option \<Rightarrow> SmartBuffer \<Rightarrow> unit result" where
  "writeBuffer junk v offset s = handleBuffer junk v False offset s"

text \<open>
  \<open>_handleString(value, isInsert, arg3, encoding)\<close>.  The third argument is absent, an
  offset or an encoding name.  The text codec is the platform's: \<open>enc e v\<close> is the bytes
  of the string \<open>v\<close> in the encoding \<open>e\<close>, so \<open>Buffer.byteLength(v, e)\<close> is their number
  (for malformed \<open>hex\<close> or \<open>base64\<close> text the platform counts more bytes than it
  stores; such text is outside this model).
\<close>

datatype strarg = ArgUndefined | ArgOffset int | ArgEncoding string

definition handleString ::
  "(nat \<Rightarrow> byte) \<Rightarrow> (string \<Rightarrow> string \<Rightarrow> Buffer) \<Rightarrow> string \<Rightarrow> bool \<Rightarrow> strarg
     \<Rightarrow> string option \<Rightarrow> SmartBuffer \<Rightarrow> unit result" where
  "handleString junk enc v isInsert arg3 encoding s =
     (let offsetVal = (case arg3 of ArgOffset n \<Rightarrow> n | _ \<Rightarrow> writeOffset s) in
      case (case arg3 of
              ArgEncoding e \<Rightarrow> (case checkEncoding e of Some err \<Rightarrow> Inl err | None \<Rightarrow> Inr e)
            | _ \<Rightarrow> Inr (encoding_sb s)) of
        Inl err \<Rightarrow> (Inl err, s)
      | Inr encodingVal1 \<Rightarrow>
         (case (case encoding of
                  Some e \<Rightarrow> (case checkEncoding e of Some err \<Rightarrow> Inl err | None \<Rightarrow> Inr e)
                | None \<Rightarrow> Inr encodingVal1) of
            Inl err \<Rightarrow> (Inl err, s)
          | Inr encodingVal \<Rightarrow>
             (let bytes = enc encodingVal v;
                  byteLength = int (length bytes) in
              case (if isInsert then ensureInsertable junk byteLength offsetVal s
                    else ensureWriteable junk byteLength (Some offsetVal) s) of
                (Inl e, s1) \<Rightarrow> (Inl e, s1)
              | (Inr _, s1) \<Rightarrow>
                 (case write_str (buff s1) bytes offsetVal byteLength of
                    Inl e \<Rightarrow> (Inl e, s1)
                  | Inr b \<Rightarrow>
                     (let s2 = s1\<lparr>buff := b\<rparr> in
                      (Inr (),
                       if isInsert then s2\<lparr>writeOffset := writeOffset s2 + byteLength\<rparr>
                       else (case arg3 of
                               ArgOffset n \<Rightarrow>
                                 s2\<lparr>writeOffset := max (writeOffset s2) (offsetVal + byteLength)\<rparr>
                             | _ \<Rightarrow> s2\<lparr>writeOffset := writeOffset s2 + byteLength\<rparr>)))))))"

definition insertString ::
  "(nat \<Rightarrow> byte) \<Rightarrow> (string \<Rightarrow> string \<Rightarrow> Buffer) \<Rightarrow> string \<Rightarrow> jsval \<Rightarrow> string option
     \<Rightarrow> SmartBuffer \<Rightarrow> unit result" where
  "insertString junk enc v offset encoding s =
     (case checkOffsetValue offset of
        Some e \<Rightarrow> (Inl e, s)
      | None \<Rightarrow>
          handleString junk enc v True
            (case offset of JSNumber n \<Rightarrow> ArgOffset (toInt n) | _ \<Rightarrow> ArgUndefined) encoding s)"

definition writeString ::
  "(nat \<Rightarrow> byte) \<Rightarrow> (string \<Rightarrow> string \<Rightarrow> Buffer) \<Rightarrow> string \<Rightarrow> strarg \<Rightarrow> string option
     \<Rightarrow> SmartBuffer \<Rightarrow> unit result" where
  "writeString junk enc v arg2 encoding s = handleString junk enc v False arg2 encoding s"

text \<open>
  \<open>readString(arg1, encoding)\<close>.  \<open>dec e bs\<close> is the platform's \<open>toString(e)\<close> of the
  bytes \<open>bs\<close>.  When the first argument is not a number it replaces the second.
\<close>

definition readString ::
  "(string \<Rightarrow> Buffer \<Rightarrow> string) \<Rightarrow> jsval \<Rightarrow> string option \<Rightarrow> SmartBuffer \<Rightarrow> string result" where
  "readString dec arg1 encoding s =
     (case (case arg1 of
              JSNumber n \<Rightarrow>
                (case checkLengthValue arg1 of
                   Some e \<Rightarrow> Inl e
                 | None \<Rightarrow> Inr (min (toInt n) (length_sb s - readOffset s), encoding))
            | JSString e \<Rightarrow> Inr (length_sb s - readOffset s, Some e)
            | JSUndefined \<Rightarrow> Inr (length_sb s - readOffset s, None)) of
        Inl e \<Rightarrow> (Inl e, s)
      | Inr (lengthVal, encoding1) \<Rightarrow>
         (case (case encoding1 of Some e \<Rightarrow> checkEncoding e | None \<Rightarrow> None) of
            Some e \<Rightarrow> (Inl e, s)
          | None \<Rightarrow>
             (let v = dec (case encoding1 of Some e \<Rightarrow> e | None \<Rightarrow> encoding_sb s)
                          (slice (buff s) (readOffset s) (readOffset s + lengthVal))
              in (Inr v, s\<lparr>readOffset := readOffset s + lengthVal\<rparr>))))"

text \<open>
  The scan of \<open>readStringNT\<close> and \<open>readBufferNT\<close>: the position of the first zero byte
  from \<open>i\<close> on and before \<open>len\<close>, and \<open>len\<close> when there is none.
\<close>

function scanNull :: "Buffer \<Rightarrow> int \<Rightarrow> int \<Rightarrow> int" where
  "scanNull b i len =
     (if i < len then (if index b i = Some 0 then i else scanNull b (i + 1) len) else len)"
  by pat_completeness auto
termination
  by (relation "measure (\<lambda>(b, i, len). nat (len - i))") auto

declare scanNull.simps [simp del]

definition readStringNT ::
  "(string \<Rightarrow> Buffer \<Rightarrow> string) \<Rightarrow> string option \<Rightarrow> SmartBuffer \<Rightarrow> string result" where
  "readStringNT dec encoding s =
     (case (case encoding of Some e \<Rightarrow> checkEncoding e | None \<Rightarrow> None) of
        Some e \<Rightarrow> (Inl e, s)
      | None \<Rightarrow>
         (let nullPos = scanNull (buff s) (readOffset s) (length_sb s);
              v = slice (buff s) (readOffset s) nullPos
          in (Inr (dec (case encoding of Some e \<Rightarrow> e | None \<Rightarrow> encoding_sb s) v),
              s\<lparr>readOffset := nullPos + 1\<rparr>)))"

definition readBuffer :: "jsval \<Rightarrow> SmartBuffer \<Rightarrow> Buffer result" where
  "readBuffer len s =
     (case (case len of JSUndefined \<Rightarrow> None | _ \<Rightarrow> checkLengthValue len) of
        Some e \<Rightarrow> (Inl e, s)
      | None \<Rightarrow>
         (let lengthVal = (case len of JSNumber n \<Rightarrow> toInt n | _ \<Rightarrow> length_sb s);
              endPoint = min (length_sb s) (readOffset s + lengthVal);
              v = slice (buff s) (readOffset s) endPoint
          in (Inr v, s\<lparr>readOffset := endPoint\<rparr>)))"

definition readBufferNT :: "SmartBuffer \<Rightarrow> Buffer result" where
  "readBufferNT s =
     (let nullPos = scanNull (buff s) (readOffset s) (length_sb s);
          v = slice (buff s) (readOffset s) nullPos
      in (Inr v, s\<lparr>readOffset := nullPos + 1\<rparr>))"

section \<open>Cursors and views (mod.ts)\<close>

definition clear :: "SmartBuffer \<Rightarrow> SmartBuffer" where
  "clear s = s\<lparr>writeOffset := 0, readOffset := 0, length_sb := 0\<rparr>"

definition remaining :: "SmartBuffer \<Rightarrow> int" where
  "remaining s = length_sb s - readOffset s"

text \<open>The setters \<open>set readOffset\<close> and \<open>set writeOffset\<close>.\<close>

definition set_readOffset :: "jsval \<Rightarrow> SmartBuffer \<Rightarrow> unit result" where
  "set_readOffset offset s =
     (case checkOffsetValue offset of
        Some e \<Rightarrow> (Inl e, s)
      | None \<Rightarrow>
         (let off = (case offset of JSNumber n \<Rightarrow> toInt n | _ \<Rightarrow> 0) in
          case checkTargetOffset off s of
            Some e \<Rightarrow> (Inl e, s)
          | None \<Rightarrow> (Inr (), s\<lparr>readOffset := off\<rparr>)))"

definition set_writeOffset :: "jsval \<Rightarrow> SmartBuffer \<Rightarrow> unit result" where
  "set_writeOffset offset s =
     (case checkOffsetValue offset of
        Some e \<Rightarrow> (Inl e, s)
      | None \<Rightarrow>
         (let off = (case offset of JSNumber n \<Rightarrow> toInt n | _ \<Rightarrow> 0) in
          case checkTargetOffset off s of
            Some e \<Rightarrow> (Inl e, s)
          | None \<Rightarrow> (Inr (), s\<lparr>writeOffset := off\<rparr>)))"

text \<open>\<open>toBuffer()\<close>: the managed bytes.\<close>

definition toBuffer :: "SmartBuffer \<Rightarrow> Buffer" where
  "toBuffer s = slice (buff s) 0 (length_sb s)"

section \<open>Construction (mod.ts)\<close>

text \<open>
  The options object: each field is absent or present.  A present \<open>buff\<close> is a Buffer or
  some other (truthy) value, which \<open>Buffer.isBuffer\<close> tells apart.
\<close>

datatype buffval = IsBuffer Buffer | NotBuffer

record SmartBufferOptions =
  encoding_opt :: "string option"
  size_opt :: "jsnum option"
  buff_opt :: "buffval option"

definition DEFAULT_SMARTBUFFER_SIZE :: rat where
  "DEFAULT_SMARTBUFFER_SIZE = 4096"

definition DEFAULT_SMARTBUFFER_ENCODING :: string where
  "DEFAULT_SMARTBUFFER_ENCODING = ''utf8''"

definition isSmartBufferOptions :: "SmartBufferOptions option \<Rightarrow> bool" where
  "isSmartBufferOptions options =
     (case options of
        None \<Rightarrow> False
      | Some castOptions \<Rightarrow>
          encoding_opt castOptions \<noteq> None \<or> size_opt castOptions \<noteq> None
          \<or> buff_opt castOptions \<noteq> None)"

text \<open>
  The constructor.  A field is tested for truthiness before it is used: an empty
  encoding name, and a size that is \<open>0\<close> or NaN, count as not given.
\<close>

definition constructor :: "(nat \<Rightarrow> byte) \<Rightarrow> SmartBufferOptions option \<Rightarrow> error + SmartBuffer" where
  "constructor junk options =
     (let this = \<lparr>length_sb = 0, encoding_sb = DEFAULT_SMARTBUFFER_ENCODING, buff = [],
                   writeOffset = 0, readOffset = 0\<rparr> in
      if isSmartBufferOptions options then
        (case options of
           None \<Rightarrow> Inl INVALID_SMARTBUFFER_OBJECT
         | Some opts \<Rightarrow>
            (case (case encoding_opt opts of
                     Some e \<Rightarrow>
                       (if e \<noteq> [] then
                          (case checkEncoding e of
                             Some err \<Rightarrow> Inl err
                           | None \<Rightarrow> Inr (this\<lparr>encoding_sb := e\<rparr>))
                        else Inr this)
                   | None \<Rightarrow> Inr this) of
               Inl err \<Rightarrow> Inl err
             | Inr this1 \<Rightarrow>
                (case size_opt opts of
                   Some sz \<Rightarrow>
                     (if truthy sz then
                        (if isFiniteInteger sz \<and> js_gt0 sz
                         then Inr (this1\<lparr>buff := allocUnsafe junk (of_int (toInt sz))\<rparr>)
                         else Inl INVALID_SMARTBUFFER_SIZE)
                      else
                        (case buff_opt opts of
                           Some (IsBuffer b) \<Rightarrow> Inr (this1\<lparr>buff := b, length_sb := int (length b)\<rparr>)
                         | Some NotBuffer \<Rightarrow> Inl INVALID_SMARTBUFFER_BUFFER
                         | None \<Rightarrow> Inr (this1\<lparr>buff := allocUnsafe junk DEFAULT_SMARTBUFFER_SIZE\<rparr>)))
                 | None \<Rightarrow>
                     (case buff_opt opts of
                        Some (IsBuffer b) \<Rightarrow> Inr (this1\<lparr>buff := b, length_sb := int (length b)\<rparr>)
                      | Some NotBuffer \<Rightarrow> Inl INVALID_SMARTBUFFER_BUFFER
                      | None \<Rightarrow> Inr (this1\<lparr>buff := allocUnsafe junk DEFAULT_SMARTBUFFER_SIZE\<rparr>)))))
      else
        (if options \<noteq> None then Inl INVALID_SMARTBUFFER_OBJECT
         else Inr (this\<lparr>buff := allocUnsafe junk DEFAULT_SMARTBUFFER_SIZE\<rparr>)))"

definition fromSize :: "(nat \<Rightarrow> byte) \<Rightarrow> jsnum \<Rightarrow> string option \<Rightarrow> error + SmartBuffer" where
  "fromSize junk sz encoding =
     constructor junk (Some \<lparr>encoding_opt = encoding, size_opt = Some sz, buff_opt = None\<rparr>)"

definition fromBuffer :: "(nat \<Rightarrow> byte) \<Rightarrow> Buffer \<Rightarrow> string option \<Rightarrow> error + SmartBuffer" where
  "fromBuffer junk b encoding =
     constructor junk
       (Some \<lparr>encoding_opt = encoding, size_opt = None, buff_opt = Some (IsBuffer b)\<rparr>)"

section \<open>Notions used in the statements\<close>

text \<open>
  A one-byte-per-character text codec, as the platform's \<open>latin1\<close> (\<open>binary\<close>); on
  bytes below \<open>0x80\<close> the \<open>ascii\<close> and \<open>utf8\<close> codecs agree with it.
\<close>

definition latin1 :: "string \<Rightarrow> Buffer \<Rightarrow> string" where
  "latin1 e bs = map (\<lambda>b. char_of (unat b)) bs"

definition latin1_bytes :: "string \<Rightarrow> string \<Rightarrow> Buffer" where
  "latin1_bytes e v = map of_char v"

text \<open>The store with the bytes \<open>bs\<close> written over it from position \<open>off\<close>.\<close>

definition put_at :: "Buffer \<Rightarrow> nat \<Rightarrow> Buffer \<Rightarrow> Buffer" where
  "put_at b off bs = take off b @ bs @ drop (off + length bs) b"

text \<open>The store with everything from \<open>off\<close> on moved up by \<open>k\<close>, the size unchanged.\<close>

definition shifted :: "Buffer \<Rightarrow> nat \<Rightarrow> nat \<Rightarrow> Buffer" where
  "shifted b off k = take (off + k) b @ take (length b - (off + k)) (drop off b)"

text \<open>
  The data-model invariant on the managed length, and an insertion offset \<open>off\<close> for
  \<open>k\<close> bytes that lies inside the managed bytes with the whole gap, or at their end.
\<close>

definition insertable :: "SmartBuffer \<Rightarrow> int \<Rightarrow> int \<Rightarrow> bool" where
  "insertable s off k =
     (0 \<le> length_sb s \<and> length_sb s \<le> int (length (buff s)) \<and> 0 \<le> off
      \<and> (off + k \<le> length_sb s \<or> off = length_sb s))"

text \<open>
  Insertion correctness, for the result \<open>r\<close> of inserting the bytes \<open>bs\<close> at \<open>off\<close> into
  \<open>s\<close>: the call returns, the length grows by the number of bytes, the managed bytes
  before \<open>off\<close> are unchanged, the inserted bytes follow, the managed bytes after them are
  the former bytes from \<open>off\<close> on, and the write cursor advances by the number of bytes.
\<close>

definition inserted :: "SmartBuffer \<Rightarrow> int \<Rightarrow> Buffer \<Rightarrow> unit result \<Rightarrow> bool" where
  "inserted s off bs r =
     (fst r = Inr ()
      \<and> length_sb (snd r) = length_sb s + int (length bs)
      \<and> take (nat off) (toBuffer (snd r)) = take (nat off) (toBuffer s)
      \<and> take (length bs) (drop (nat off) (toBuffer (snd r))) = bs
      \<and> drop (nat off + length bs) (toBuffer (snd r)) = drop (nat off) (toBuffer s)
      \<and> writeOffset (snd r) = writeOffset s + int (length bs))"

text \<open>
  An insertion offset \<open>off\<close> for \<open>k\<close> bytes that lies past the managed bytes, the bytes
  still fitting in the store the growth step for \<open>length + k\<close> leaves.
\<close>

definition beyond :: "(nat \<Rightarrow> byte) \<Rightarrow> SmartBuffer \<Rightarrow> int \<Rightarrow> int \<Rightarrow> bool" where
  "beyond junk s off k =
     (0 \<le> length_sb s \<and> length_sb s < off
      \<and> off + k \<le> int (length (buff (snd (ensureCapacity junk (length_sb s + k) s)))))"

text \<open>
  What inserting the bytes \<open>bs\<close> at such an offset gives: the call returns, the length
  becomes \<open>off + k\<close>, every byte of the store before \<open>off\<close> (the managed bytes and the
  gap after them) is as the growth step left it, the inserted bytes stand at \<open>off\<close>, and
  the write cursor advances by the number of bytes.
\<close>

definition accepted_beyond ::
  "(nat \<Rightarrow> byte) \<Rightarrow> SmartBuffer \<Rightarrow> int \<Rightarrow> Buffer \<Rightarrow> unit result \<Rightarrow> bool" where
  "accepted_beyond junk s off bs r =
     (fst r = Inr ()
      \<and> length_sb (snd r) = off + int (length bs)
      \<and> take (nat off) (buff (snd r))
          = take (nat off) (buff (snd (ensureCapacity junk (length_sb s + int (length bs)) s)))
      \<and> take (length bs) (drop (nat off) (buff (snd r))) = bs
      \<and> writeOffset (snd r) = writeOffset s + int (length bs))"

text \<open>
  The cursor rule of a write of \<open>k\<close> bytes at the explicit offset \<open>off\<close>, for its result
  \<open>r\<close>: the call returns, the write cursor is the larger of its former value and
  \<open>off + k\<close>, and so is the length.
\<close>

definition written_at :: "SmartBuffer \<Rightarrow> int \<Rightarrow> int \<Rightarrow> unit result \<Rightarrow> bool" where
  "written_at s off k r =
     (fst r = Inr ()
      \<and> writeOffset (snd r) = max (writeOffset s) (off + k)
      \<and> length_sb (snd r) = max (length_sb s) (off + k))"

text \<open>
  The invariants of the data model: both cursors within \<open>[0, length]\<close>, and the length
  within the capacity.
\<close>

definition invariant :: "SmartBuffer \<Rightarrow> bool" where
  "invariant s =
     (0 \<le> readOffset s \<and> readOffset s \<le> length_sb s
      \<and> 0 \<le> writeOffset s \<and> writeOffset s \<le> length_sb s
      \<and> length_sb s \<le> int (length (buff s)))"

text \<open>The part of these invariants a read depends on.\<close>

definition read_ready :: "SmartBuffer \<Rightarrow> bool" where
  "read_ready s =
     (0 \<le> readOffset s \<and> readOffset s \<le> length_sb s
      \<and> length_sb s \<le> int (length (buff s)))"

section \<open>Growth\<close>

lemma length_allocUnsafe: "length (allocUnsafe junk q) = nat \<lfloor>q\<rfloor>"
  by (simp add: allocUnsafe_def)

lemma copy_prefix:
  "n = int (length src) \<Longrightarrow> length src \<le> length tgt \<Longrightarrow>
   copy src tgt 0 0 n = Inr (src @ drop (length src) tgt)"
  by (cases "src = []") (auto simp: copy_def Let_def min_def)

lemma floor_growth: "\<lfloor>(of_int c * 3) / 2 + (1::rat)\<rfloor> = (c * 3) div 2 + 1"
proof -
  have "(of_int c * 3) / (2::rat) = of_int (c * 3) / of_int 2" by simp
  then have "\<lfloor>(of_int c * 3) / (2::rat)\<rfloor> = (c * 3) div 2"
    by (simp only: floor_divide_of_int_eq)
  then show ?thesis by simp
qed

lemma growth_lt: "((of_int c * 3) / 2 + (1::rat) < of_int m) = ((c * 3) div 2 + 1 < m)"
proof -
  have "((of_int c * 3) / 2 + (1::rat) < of_int m) = (\<lfloor>(of_int c * 3) / 2 + (1::rat)\<rfloor> < m)"
    by (simp only: floor_less_iff)
  then show ?thesis by (simp only: floor_growth)
qed

lemma ensureCapacity_keep:
  "m \<le> int (length (buff s)) \<Longrightarrow> ensureCapacity junk m s = (Inr (), s)"
  by (simp add: ensureCapacity_def)

lemma ensureCapacity_grow:
  assumes "m > int (length (buff s))"
  shows "ensureCapacity junk m s
         = (Inr (), s\<lparr>buff := buff s @ drop (length (buff s))
              (allocUnsafe junk (of_int (max m ((int (length (buff s)) * 3) div 2 + 1))))\<rparr>)"
proof -
  let ?c = "int (length (buff s))"
  let ?n = "(if (of_int ?c * 3) / 2 + (1::rat) < of_int m then of_int m
             else (of_int ?c * 3) / 2 + (1::rat))"
  have fl: "\<lfloor>?n\<rfloor> = max m ((?c * 3) div 2 + 1)"
    using growth_lt[of ?c m] floor_growth[of ?c] by (auto simp: max_def)
  have len: "length (buff s) \<le> length (allocUnsafe junk ?n)"
    using assms fl by (simp add: length_allocUnsafe)
  have cp: "copy (buff s) (allocUnsafe junk ?n) 0 0 ?c
            = Inr (buff s @ drop (length (buff s)) (allocUnsafe junk ?n))"
    by (rule copy_prefix[OF refl len])
  have al: "allocUnsafe junk ?n = allocUnsafe junk (of_int (max m ((?c * 3) div 2 + 1)))"
    unfolding allocUnsafe_def fl by simp
  show ?thesis
    using assms cp unfolding ensureCapacity_def Let_def al[symmetric]
    by simp
qed

section \<open>The platform primitives on well-placed arguments\<close>

lemma length_put_at: "off + length bs \<le> length b \<Longrightarrow> length (put_at b off bs) = length b"
  by (simp add: put_at_def)

lemma length_be_bytes: "length (be_bytes k n) = k"
  by (induction k arbitrary: n) simp_all

lemma length_encode: "length (encode sh v) = byteSize sh"
  by (simp add: encode_def order_def length_be_bytes)

lemma buf_write_ok:
  "representable sh v \<Longrightarrow> 0 \<le> off \<Longrightarrow> off + int (byteSize sh) \<le> int (length b) \<Longrightarrow>
   buf_write sh b v off = Inr (put_at b (nat off) (encode sh v))"
  by (simp add: buf_write_def put_at_def length_encode)

lemma copy_value_ok:
  assumes "0 \<le> off" "off + int (length v) \<le> int (length b)"
  shows "copy v b off 0 (int (length v)) = Inr (put_at b (nat off) v)"
proof (cases "v = []")
  case True
  then show ?thesis using assms by (simp add: copy_def put_at_def)
next
  case False
  then have pos: "0 < length v" by simp
  then have lt: "off < int (length b)" using assms by linarith
  show ?thesis using assms lt False by (auto simp: copy_def put_at_def Let_def min_def)
qed

lemma write_str_ok:
  "0 \<le> off \<Longrightarrow> off + int (length bs) \<le> int (length b) \<Longrightarrow>
   write_str b bs off (int (length bs)) = Inr (put_at b (nat off) bs)"
  by (auto simp: write_str_def put_at_def Let_def min_def)

lemma copy_shift:
  assumes "0 \<le> off" "0 \<le> k" "off + k \<le> int (length b)"
  shows "copy b b (off + k) off (int (length b))
         = Inr (take (nat (off + k)) b @ take (length b - nat (off + k)) (drop (nat off) b))"
proof (cases "off + k = int (length b)")
  case True
  then show ?thesis using assms by (simp add: copy_def)
next
  case False
  then have lt: "off + k < int (length b)" using assms by simp
  have nb: "min (min (int (length b) - off) (int (length b) - (off + k))) (int (length b) - off)
            = int (length b) - (off + k)"
    using assms by simp
  have n1: "nat (int (length b) - (off + k)) = length b - nat (off + k)"
    using assms by simp
  show ?thesis
    using assms lt unfolding copy_def Let_def nb n1
    by (simp add: nat_add_distrib)
qed

lemma ensureCapacity_ext:
  "\<exists>ext. ensureCapacity junk m s = (Inr (), s\<lparr>buff := buff s @ ext\<rparr>)
         \<and> m \<le> int (length (buff s @ ext))"
proof (cases "m > int (length (buff s))")
  case True
  have "m \<le> int (length (buff s @ drop (length (buff s))
              (allocUnsafe junk (of_int (max m ((int (length (buff s)) * 3) div 2 + 1))))))"
    using True by (simp add: length_allocUnsafe)
  then show ?thesis
    using ensureCapacity_grow[OF True, of junk] by blast
next
  case False
  then have "ensureCapacity junk m s = (Inr (), s\<lparr>buff := buff s @ []\<rparr>)"
    by (simp add: ensureCapacity_keep)
  then show ?thesis using False by (intro exI[of _ "[]"]) simp
qed

lemma checkOffsetValue_num: "checkOffsetValue (num off) = (if off < 0 then Some INVALID_OFFSET else None)"
  by (simp add: checkOffsetValue_def checkOffsetOrLengthValue_def num_def isFiniteInteger_def
      isInteger_def isFinite_def)

lemma toInt_num: "(case num off of JSNumber n \<Rightarrow> toInt n | _ \<Rightarrow> d) = off"
  by (simp add: num_def)

section \<open>The reservation steps\<close>

lemma ensureWriteable_res:
  "\<exists>ext. ensureWriteable junk k (Some off) s
           = (Inr (), s\<lparr>length_sb := max (length_sb s) (off + k), buff := buff s @ ext\<rparr>)
         \<and> off + k \<le> int (length (buff s @ ext))"
proof -
  obtain ext where e: "ensureCapacity junk (off + k) s = (Inr (), s\<lparr>buff := buff s @ ext\<rparr>)"
    and l: "off + k \<le> int (length (buff s @ ext))"
    using ensureCapacity_ext[of junk "off + k" s] by blast
  have "ensureWriteable junk k (Some off) s
          = (Inr (), s\<lparr>length_sb := max (length_sb s) (off + k), buff := buff s @ ext\<rparr>)"
    unfolding ensureWriteable_def Let_def by (simp add: e max_def)
  then show ?thesis using l by blast
qed

lemma ensureInsertable_res:
  assumes "0 \<le> off" "0 \<le> k"
  shows "\<exists>ext. ensureInsertable junk k off s
           = (Inr (), s\<lparr>length_sb := (if off + k > length_sb s then off + k else length_sb s + k),
                         buff := (if off < length_sb s then shifted (buff s @ ext) (nat off) (nat k)
                                  else buff s @ ext)\<rparr>)
         \<and> length_sb s + k \<le> int (length (buff s @ ext))"
proof -
  obtain ext where e: "ensureCapacity junk (length_sb s + k) s = (Inr (), s\<lparr>buff := buff s @ ext\<rparr>)"
    and l: "length_sb s + k \<le> int (length (buff s @ ext))"
    using ensureCapacity_ext[of junk "length_sb s + k" s] by blast
  let ?b1 = "buff s @ ext"
  have chk: "checkOffsetValue (num off) = None" using assms by (simp add: checkOffsetValue_num)
  show ?thesis
  proof (cases "off < length_sb s")
    case True
    then have fit: "off + k \<le> int (length ?b1)" using l by linarith
    have cp: "copy ?b1 ?b1 (off + k) off (int (length ?b1)) = Inr (shifted ?b1 (nat off) (nat k))"
      using copy_shift[OF assms fit] assms by (simp add: shifted_def nat_add_distrib)
    have "ensureInsertable junk k off s
           = (Inr (), s\<lparr>length_sb := (if off + k > length_sb s then off + k else length_sb s + k),
                         buff := shifted ?b1 (nat off) (nat k)\<rparr>)"
      unfolding ensureInsertable_def Let_def using True cp by (simp add: chk e)
    then show ?thesis using True l by (intro exI[of _ ext]) simp
  next
    case False
    have "ensureInsertable junk k off s
           = (Inr (), s\<lparr>length_sb := (if off + k > length_sb s then off + k else length_sb s + k),
                         buff := ?b1\<rparr>)"
      unfolding ensureInsertable_def Let_def using False by (simp add: chk e)
    then show ?thesis using False l by (intro exI[of _ ext]) simp
  qed
qed

lemma slice_from_0: "0 \<le> n \<Longrightarrow> slice b 0 n = take (nat n) b"
  by (auto simp: slice_def Let_def min_def)

lemma toBuffer_take: "0 \<le> length_sb s \<Longrightarrow> toBuffer s = take (nat (length_sb s)) (buff s)"
  by (simp add: toBuffer_def slice_from_0)

lemma live_after_insert:
  assumes "off \<le> L" "L \<le> length b" "L + length bs \<le> length (b @ ext)"
  shows "take (L + length bs)
           (put_at (if off < L then shifted (b @ ext) off (length bs) else b @ ext) off bs)
         = take off (take L b) @ bs @ drop off (take L b)"
proof (cases "off < L")
  case True
  let ?k = "length bs"
  let ?b1 = "b @ ext"
  have s1: "take off (shifted ?b1 off ?k) = take off b"
    using assms True by (simp add: shifted_def)
  have s2: "drop (off + ?k) (shifted ?b1 off ?k) = take (length ?b1 - (off + ?k)) (drop off ?b1)"
    using assms True by (simp add: shifted_def)
  have "take (L + ?k) (put_at (shifted ?b1 off ?k) off bs)
        = take off b @ bs @ take (L - off) (take (length ?b1 - (off + ?k)) (drop off ?b1))"
    using assms True unfolding put_at_def s1 s2 by simp
  also have "take (L - off) (take (length ?b1 - (off + ?k)) (drop off ?b1)) = take (L - off) (drop off b)"
  proof -
    have m: "min (L - off) (length ?b1 - (off + ?k)) = L - off" using assms True by simp
    have "take (L - off) (take (length ?b1 - (off + ?k)) (drop off ?b1)) = take (L - off) (drop off ?b1)"
      by (simp only: take_take m)
    also have "\<dots> = take (L - off) (drop off b)" using assms True by simp
    finally show ?thesis .
  qed
  also have "take off b = take off (take L b)" using assms by (simp add: min_def)
  also have "take (L - off) (drop off b) = drop off (take L b)" by (simp add: drop_take)
  finally show ?thesis using True by simp
next
  case False
  then have eq: "off = L" using assms by simp
  show ?thesis using assms unfolding eq put_at_def by simp
qed

section \<open>Insertion inside the managed bytes\<close>

lemma length_shifted: "off + k \<le> length b \<Longrightarrow> length (shifted b off k) = length b"
  by (simp add: shifted_def)

lemma insert_core:
  assumes "insertable s off (int (length bs))"
  shows "\<exists>B. ensureInsertable junk (int (length bs)) off s
               = (Inr (), s\<lparr>length_sb := length_sb s + int (length bs), buff := B\<rparr>)
           \<and> off + int (length bs) \<le> int (length B)
           \<and> take (nat (length_sb s) + length bs) (put_at B (nat off) bs)
               = take (nat off) (toBuffer s) @ bs @ drop (nat off) (toBuffer s)"
proof -
  from assms have inv: "0 \<le> length_sb s" "length_sb s \<le> int (length (buff s))"
    and off: "0 \<le> off" "off + int (length bs) \<le> length_sb s \<or> off = length_sb s"
    by (simp_all add: insertable_def)
  have k: "(0::int) \<le> int (length bs)" by simp
  obtain ext where r: "ensureInsertable junk (int (length bs)) off s
           = (Inr (), s\<lparr>length_sb := (if off + int (length bs) > length_sb s then off + int (length bs)
                                         else length_sb s + int (length bs)),
                         buff := (if off < length_sb s
                                  then shifted (buff s @ ext) (nat off) (nat (int (length bs)))
                                  else buff s @ ext)\<rparr>)"
    and cap: "length_sb s + int (length bs) \<le> int (length (buff s @ ext))"
    using ensureInsertable_res[OF off(1) k, of junk s] by blast
  let ?B = "if off < length_sb s then shifted (buff s @ ext) (nat off) (length bs) else buff s @ ext"
  have len: "(if off + int (length bs) > length_sb s then off + int (length bs)
              else length_sb s + int (length bs)) = length_sb s + int (length bs)"
    using off by auto
  have r': "ensureInsertable junk (int (length bs)) off s
              = (Inr (), s\<lparr>length_sb := length_sb s + int (length bs), buff := ?B\<rparr>)"
    using r unfolding len by simp
  have offL: "off \<le> length_sb s" using off by auto
  have fitn: "nat off + length bs \<le> length (buff s @ ext)" using cap offL off(1) by simp
  have lenB: "length ?B = length (buff s @ ext)"
    using length_shifted[OF fitn] by simp
  have fit: "off + int (length bs) \<le> int (length ?B)"
    unfolding lenB using cap offL by linarith
  have a1: "nat off \<le> nat (length_sb s)" using offL off(1) by simp
  have a2: "nat (length_sb s) \<le> length (buff s)" using inv by simp
  have a3: "nat (length_sb s) + length bs \<le> length (buff s @ ext)" using cap inv by simp
  have c: "(if nat off < nat (length_sb s) then shifted (buff s @ ext) (nat off) (length bs)
            else buff s @ ext) = ?B"
    using off(1) inv by simp
  have live: "take (nat (length_sb s) + length bs) (put_at ?B (nat off) bs)
               = take (nat off) (toBuffer s) @ bs @ drop (nat off) (toBuffer s)"
    using live_after_insert[OF a1 a2 a3] unfolding c toBuffer_take[OF inv(1)] .
  show ?thesis using r' fit live by blast
qed

lemma inserted_intro:
  assumes "insertable s off (int (length bs))"
    and "fst r = Inr ()"
    and "length_sb (snd r) = length_sb s + int (length bs)"
    and "writeOffset (snd r) = writeOffset s + int (length bs)"
    and "take (nat (length_sb s) + length bs) (buff (snd r))
           = take (nat off) (toBuffer s) @ bs @ drop (nat off) (toBuffer s)"
  shows "inserted s off bs r"
proof -
  from assms(1) have inv: "0 \<le> length_sb s" "length_sb s \<le> int (length (buff s))"
    and off: "0 \<le> off" "off \<le> length_sb s"
    by (auto simp: insertable_def)
  have ll: "length (toBuffer s) = nat (length_sb s)"
    using inv by (simp add: toBuffer_take)
  have tb: "toBuffer (snd r) = take (nat off) (toBuffer s) @ bs @ drop (nat off) (toBuffer s)"
    using assms(3,5) inv by (simp add: toBuffer_take nat_add_distrib)
  have lt: "length (take (nat off) (toBuffer s)) = nat off"
    using ll off by simp
  show ?thesis
    unfolding inserted_def tb using assms(2,3,4) lt by simp
qed

lemma insertNumber_inserted:
  assumes "insertable s off (int (byteSize sh))" "representable sh v"
  shows "inserted s off (encode sh v) (insertNumber junk sh v (num off) s)"
proof -
  have ins: "insertable s off (int (length (encode sh v)))"
    using assms(1) by (simp add: length_encode)
  from assms(1) have off0: "0 \<le> off" by (simp add: insertable_def)
  obtain B where e: "ensureInsertable junk (int (byteSize sh)) off s
               = (Inr (), s\<lparr>length_sb := length_sb s + int (byteSize sh), buff := B\<rparr>)"
    and fit: "off + int (byteSize sh) \<le> int (length B)"
    and live: "take (nat (length_sb s) + byteSize sh) (put_at B (nat off) (encode sh v))
               = take (nat off) (toBuffer s) @ encode sh v @ drop (nat off) (toBuffer s)"
    using insert_core[OF ins, of junk] by (auto simp: length_encode)
  have w: "buf_write sh B v off = Inr (put_at B (nat off) (encode sh v))"
    by (rule buf_write_ok[OF assms(2) off0 fit])
  have r: "insertNumber junk sh v (num off) s
        = (Inr (), s\<lparr>length_sb := length_sb s + int (byteSize sh),
                      buff := put_at B (nat off) (encode sh v),
                      writeOffset := writeOffset s + int (byteSize sh)\<rparr>)"
    unfolding insertNumber_def insertNumberValue_def Let_def
    using off0 by (simp add: checkOffsetValue_num toInt_num e w)
  show ?thesis
    by (rule inserted_intro[OF ins]) (simp_all add: r length_encode live)
qed

lemma insertBuffer_inserted:
  assumes "insertable s off (int (length bv))"
  shows "inserted s off bv (insertBuffer junk bv (num off) s)"
proof -
  from assms have off0: "0 \<le> off" by (simp add: insertable_def)
  obtain B where e: "ensureInsertable junk (int (length bv)) off s
               = (Inr (), s\<lparr>length_sb := length_sb s + int (length bv), buff := B\<rparr>)"
    and fit: "off + int (length bv) \<le> int (length B)"
    and live: "take (nat (length_sb s) + length bv) (put_at B (nat off) bv)
               = take (nat off) (toBuffer s) @ bv @ drop (nat off) (toBuffer s)"
    using insert_core[OF assms, of junk] by auto
  have w: "copy bv B off 0 (int (length bv)) = Inr (put_at B (nat off) bv)"
    by (rule copy_value_ok[OF off0 fit])
  have n: "(case num off of JSNumber n \<Rightarrow> Some (toInt n) | _ \<Rightarrow> None) = Some off"
    by (simp add: num_def)
  have r: "insertBuffer junk bv (num off) s
        = (Inr (), s\<lparr>length_sb := length_sb s + int (length bv),
                      buff := put_at B (nat off) bv,
                      writeOffset := writeOffset s + int (length bv)\<rparr>)"
    unfolding insertBuffer_def handleBuffer_def Let_def n
    using off0 by (simp add: checkOffsetValue_num e w)
  show ?thesis
    by (rule inserted_intro[OF assms]) (simp_all add: r live)
qed

lemma insertString_inserted:
  assumes "insertable s off (int (length (enc e v)))"
    and "e = (case encoding of Some x \<Rightarrow> x | None \<Rightarrow> encoding_sb s)"
    and "\<forall>x. encoding = Some x \<longrightarrow> isEncoding x"
  shows "inserted s off (enc e v) (insertString junk enc v (num off) encoding s)"
proof -
  let ?bs = "enc e v"
  from assms(1) have off0: "0 \<le> off" by (simp add: insertable_def)
  obtain B where e: "ensureInsertable junk (int (length ?bs)) off s
               = (Inr (), s\<lparr>length_sb := length_sb s + int (length ?bs), buff := B\<rparr>)"
    and fit: "off + int (length ?bs) \<le> int (length B)"
    and live: "take (nat (length_sb s) + length ?bs) (put_at B (nat off) ?bs)
               = take (nat off) (toBuffer s) @ ?bs @ drop (nat off) (toBuffer s)"
    using insert_core[OF assms(1), of junk] by auto
  have w: "write_str B ?bs off (int (length ?bs)) = Inr (put_at B (nat off) ?bs)"
    by (rule write_str_ok[OF off0 fit])
  have n: "(case num off of JSNumber n \<Rightarrow> ArgOffset (toInt n) | _ \<Rightarrow> ArgUndefined) = ArgOffset off"
    by (simp add: num_def)
  have ev: "(case encoding of
               Some x \<Rightarrow> (case checkEncoding x of Some err \<Rightarrow> Inl err | None \<Rightarrow> Inr x)
             | None \<Rightarrow> Inr (encoding_sb s)) = Inr e"
    using assms(2,3) by (cases encoding) (simp_all add: checkEncoding_def)
  have r: "insertString junk enc v (num off) encoding s
        = (Inr (), s\<lparr>length_sb := length_sb s + int (length ?bs),
                      buff := put_at B (nat off) ?bs,
                      writeOffset := writeOffset s + int (length ?bs)\<rparr>)"
    unfolding insertString_def handleString_def Let_def n
    using off0 by (simp add: checkOffsetValue_num ev e w)
  show ?thesis
    by (rule inserted_intro[OF assms(1)]) (simp_all add: r live)
qed

section \<open>The codec round trip\<close>

lemma be_val_snoc: "be_val (bs @ [b]) = be_val bs * 256 + uint b"
  by (simp add: be_val_def)

lemma uint_byte_of_int: "uint (word_of_int n :: byte) = n mod 256"
  by (simp add: uint_word_of_int_eq take_bit_eq_mod)

lemma be_val_be_bytes: "be_val (be_bytes k n) = n mod 256 ^ k"
proof (induction k arbitrary: n)
  case 0
  then show ?case by (simp add: be_val_def)
next
  case (Suc k)
  have "n mod (256 * 256 ^ k) = 256 * (n div 256 mod 256 ^ k) + n mod 256"
    by (rule zmod_zmult2_eq) simp
  then show ?case
    by (simp add: be_val_snoc Suc.IH uint_byte_of_int)
qed

lemma order_order: "order sh (order sh bs) = bs"
  by (simp add: order_def)

lemma length_order: "length (order sh bs) = length bs"
  by (simp add: order_def)

lemma signed_roundtrip:
  fixes i N :: int
  assumes "- (N div 2) \<le> i" "i < N div 2" "even N" "0 < N"
  shows "(if i mod N \<ge> N div 2 then i mod N - N else i mod N) = i"
proof (cases "0 \<le> i")
  case True
  then have "i mod N = i" using assms by (intro mod_pos_pos_trivial) auto
  then show ?thesis using assms by simp
next
  case False
  have "(i + N) mod N = i + N" using assms False by (intro mod_pos_pos_trivial) auto
  then have m: "i mod N = i + N" by simp
  have "N div 2 + N div 2 = N" using assms(3) by auto
  then show ?thesis using assms False unfolding m by auto
qed

lemma decode_encode:
  assumes "representable sh v"
  shows "decode sh (encode sh v) = v"
proof (cases "kind_of sh")
  case Signed
  then obtain i where v: "v = IntVal i"
    and lo: "- (2 ^ (8 * byteSize sh - 1)) \<le> i" and hi: "i < 2 ^ (8 * byteSize sh - 1)"
    using assms by (auto simp: representable_def split: numval.splits)
  have pos: "0 < byteSize sh" by (cases sh) simp_all
  then obtain m where m: "8 * byteSize sh = Suc m" by (cases "8 * byteSize sh") auto
  have N: "(256::int) ^ byteSize sh = 2 ^ (8 * byteSize sh)"
    by (simp add: power_mult)
  have half: "(2::int) ^ (8 * byteSize sh) div 2 = 2 ^ (8 * byteSize sh - 1)"
    unfolding m by simp
  have ev: "even ((2::int) ^ (8 * byteSize sh))" unfolding m by simp
  have "(if i mod 2 ^ (8 * byteSize sh) \<ge> 2 ^ (8 * byteSize sh) div 2
         then i mod 2 ^ (8 * byteSize sh) - 2 ^ (8 * byteSize sh)
         else i mod 2 ^ (8 * byteSize sh)) = i"
    by (rule signed_roundtrip) (use lo hi half ev in simp_all)
  then show ?thesis
    unfolding decode_def encode_def Let_def order_order be_val_be_bytes N half v
    by (simp add: Signed split: if_splits)
next
  case Unsigned
  then obtain i where v: "v = IntVal i" and lo: "0 \<le> i" and hi: "i < 2 ^ (8 * byteSize sh)"
    using assms by (auto simp: representable_def split: numval.splits)
  have N: "(256::int) ^ byteSize sh = 2 ^ (8 * byteSize sh)"
    by (simp add: power_mult)
  have "i mod 2 ^ (8 * byteSize sh) = i" using lo hi by (rule mod_pos_pos_trivial)
  then show ?thesis
    unfolding decode_def encode_def Let_def order_order be_val_be_bytes N v
    by (simp add: Unsigned)
next
  case Float32
  then obtain w where v: "v = FloatVal w"
    using assms by (auto simp: representable_def split: numval.splits)
  have k: "byteSize sh = 4" using Float32 by (cases sh) simp_all
  have "uint w mod 256 ^ 4 = uint w"
    using uint_lt2p[of w] by (intro mod_pos_pos_trivial) simp_all
  then show ?thesis
    unfolding decode_def encode_def Let_def order_order be_val_be_bytes v k
    by (simp add: Float32)
next
  case Float64
  then obtain w where v: "v = DoubleVal w"
    using assms by (auto simp: representable_def split: numval.splits)
  have k: "byteSize sh = 8" using Float64 by (cases sh) simp_all
  have "uint w mod 256 ^ 8 = uint w"
    using uint_lt2p[of w] by (intro mod_pos_pos_trivial) simp_all
  then show ?thesis
    unfolding decode_def encode_def Let_def order_order be_val_be_bytes v k
    by (simp add: Float64)
qed

lemma take_drop_put_at:
  "off + length bs \<le> length b \<Longrightarrow> take (length bs) (drop off (put_at b off bs)) = bs"
  by (simp add: put_at_def)

section \<open>Claims about growth and the number round trip\<close>

text \<open>
  C5.  When the requested minimum length \<open>m\<close> exceeds the physical capacity \<open>C\<close>, the
  growth step succeeds, the new region has exactly \<open>max m (C * 3 div 2 + 1)\<close> bytes, its
  first \<open>C\<close> bytes are the whole previous region, and the length and cursors are
  untouched.
\<close>

theorem growth_step:
  assumes "int (length (buff s)) < m"
  shows "fst (ensureCapacity junk m s) = Inr ()
       \<and> int (length (buff (snd (ensureCapacity junk m s))))
           = max m ((int (length (buff s)) * 3) div 2 + 1)
       \<and> take (length (buff s)) (buff (snd (ensureCapacity junk m s))) = buff s
       \<and> length_sb (snd (ensureCapacity junk m s)) = length_sb s
       \<and> readOffset (snd (ensureCapacity junk m s)) = readOffset s
       \<and> writeOffset (snd (ensureCapacity junk m s)) = writeOffset s"
proof -
  have le: "int (length (buff s)) \<le> max m ((int (length (buff s)) * 3) div 2 + 1)"
    using assms by simp
  show ?thesis
    unfolding ensureCapacity_grow[OF assms] using le
    by (simp add: length_allocUnsafe)
qed

theorem growth_step_witness:
  "int (length (buff \<lparr>length_sb = 2, encoding_sb = ''utf8'', buff = [1, 2, 3],
                       writeOffset = 2, readOffset = 0\<rparr>)) < 4
   \<and> int (length (buff (snd (ensureCapacity (\<lambda>_. 0) 4
         \<lparr>length_sb = 2, encoding_sb = ''utf8'', buff = [1, 2, 3],
           writeOffset = 2, readOffset = 0\<rparr>)))) = 5
   \<and> take 3 (buff (snd (ensureCapacity (\<lambda>_. 0) 4
         \<lparr>length_sb = 2, encoding_sb = ''utf8'', buff = [1, 2, 3],
           writeOffset = 2, readOffset = 0\<rparr>))) = [1, 2, 3]"
  using growth_step [of "\<lparr>length_sb = 2, encoding_sb = ''utf8'', buff = [1, 2, 3],
      writeOffset = 2, readOffset = 0\<rparr>" 4 "\<lambda>_. 0"]
  by (simp add: numeral_3_eq_3)

lemma bounds_representable:
  "representable Int8 (IntVal 0) \<and> representable Int8 (IntVal (- 128))
   \<and> representable Int8 (IntVal 127) \<and> representable UInt8 (IntVal 255)
   \<and> representable Int16BE (IntVal (- 32768)) \<and> representable Int16LE (IntVal 32767)
   \<and> representable UInt16BE (IntVal 0) \<and> representable UInt16LE (IntVal 65535)
   \<and> representable Int32BE (IntVal (- 2147483648)) \<and> representable Int32LE (IntVal 2147483647)
   \<and> representable UInt32BE (IntVal 4294967295) \<and> representable UInt32LE (IntVal 0)
   \<and> representable BigInt64BE (IntVal (- 9223372036854775808))
   \<and> representable BigInt64LE (IntVal 9223372036854775807)
   \<and> representable BigUInt64BE (IntVal 18446744073709551615)
   \<and> representable BigUInt64LE (IntVal 0)"
  by (simp add: representable_def)

text \<open>
  C4.  For each of the eighteen shapes and each value representable in it, a relative
  write followed by a relative read at the position just written (the read cursor
  standing where the write cursor stood) returns, and returns exactly the value; the
  range of \<open>representable\<close> includes zero and both bounds of every width.
\<close>

theorem write_then_read:
  assumes "representable sh v" "0 \<le> writeOffset s" "readOffset s = writeOffset s"
  shows "fst (writeNumber junk sh v JSUndefined s) = Inr ()
       \<and> fst (readNumber sh JSUndefined (snd (writeNumber junk sh v JSUndefined s))) = Inr v"
proof -
  let ?k = "int (byteSize sh)"
  let ?w = "writeOffset s"
  obtain ext where e: "ensureWriteable junk ?k (Some ?w) s
           = (Inr (), s\<lparr>length_sb := max (length_sb s) (?w + ?k), buff := buff s @ ext\<rparr>)"
    and fit: "?w + ?k \<le> int (length (buff s @ ext))"
    using ensureWriteable_res[of junk ?k ?w s] by blast
  let ?b1 = "buff s @ ext"
  let ?b2 = "put_at ?b1 (nat ?w) (encode sh v)"
  have w: "buf_write sh ?b1 v ?w = Inr ?b2"
    by (rule buf_write_ok[OF assms(1,2) fit])
  have r: "writeNumber junk sh v JSUndefined s
        = (Inr (), s\<lparr>length_sb := max (length_sb s) (?w + ?k), buff := ?b2,
                      writeOffset := ?w + ?k\<rparr>)"
    unfolding writeNumber_def writeNumberValue_def Let_def by (simp add: e w)
  have fitn: "nat ?w + length (encode sh v) \<le> length ?b1"
    using fit assms(2) by (simp add: length_encode)
  have len2: "length ?b2 = length ?b1" by (rule length_put_at[OF fitn])
  have bytes: "take (byteSize sh) (drop (nat ?w) ?b2) = encode sh v"
    using take_drop_put_at[OF fitn] by (simp add: length_encode)
  have rd: "buf_read sh ?b2 ?w = Inr v"
    unfolding buf_read_def len2 bytes using fit assms(1,2) by (simp add: decode_encode)
  have "fst (readNumber sh JSUndefined (s\<lparr>length_sb := max (length_sb s) (?w + ?k), buff := ?b2,
                      writeOffset := ?w + ?k\<rparr>)) = Inr v"
    unfolding readNumber_def readNumberValue_def ensureReadable_def
    using assms(2,3) rd by simp
  then show ?thesis by (simp add: r)
qed

theorem write_then_read_witness:
  "representable Int16LE (IntVal (- 32768))
   \<and> 0 \<le> writeOffset \<lparr>length_sb = 3, encoding_sb = ''utf8'', buff = [1, 2, 3, 0],
                           writeOffset = 3, readOffset = 3\<rparr>
   \<and> fst (readNumber Int16LE JSUndefined
        (snd (writeNumber (\<lambda>_. 0) Int16LE (IntVal (- 32768)) JSUndefined
           \<lparr>length_sb = 3, encoding_sb = ''utf8'', buff = [1, 2, 3, 0],
             writeOffset = 3, readOffset = 3\<rparr>))) = Inr (IntVal (- 32768))"
  using write_then_read [of Int16LE "IntVal (- 32768)"
      "\<lparr>length_sb = 3, encoding_sb = ''utf8'', buff = [1, 2, 3, 0], writeOffset = 3, readOffset = 3\<rparr>"
      "\<lambda>_. 0"]
  by (simp add: representable_def)

section \<open>Claims about insertion\<close>

text \<open>
  C1, as the code has it.  On a buffer whose managed length is within its store, inserting
  \<open>k\<close> bytes at an offset \<open>off\<close> with \<open>off + k \<le> length\<close>, or at \<open>off = length\<close>, returns
  and gives the length \<open>length + k\<close>, leaves the managed bytes before \<open>off\<close> unchanged,
  puts the former bytes from \<open>off\<close> on after the inserted ones, and advances the write
  cursor by \<open>k\<close>: for every number shape, for a byte run and for a string.
\<close>

theorem insert_splices:
  "(insertable s off (int (byteSize sh)) \<and> representable sh v
      \<longrightarrow> inserted s off (encode sh v) (insertNumber junk sh v (num off) s))
   \<and> (insertable s off (int (length bv))
      \<longrightarrow> inserted s off bv (insertBuffer junk bv (num off) s))
   \<and> (insertable s off (int (length (enc (case encoding of Some x \<Rightarrow> x | None \<Rightarrow> encoding_sb s) str)))
        \<and> (\<forall>x. encoding = Some x \<longrightarrow> isEncoding x)
      \<longrightarrow> inserted s off (enc (case encoding of Some x \<Rightarrow> x | None \<Rightarrow> encoding_sb s) str)
            (insertString junk enc str (num off) encoding s))"
  using insertNumber_inserted [of s off sh v junk]
        insertBuffer_inserted [of s off bv junk]
        insertString_inserted [of s off enc _ str encoding junk]
  by blast

theorem insert_splices_witness:
  "insertable \<lparr>length_sb = 3, encoding_sb = ''utf8'', buff = [1, 2, 3, 0],
               writeOffset = 3, readOffset = 0\<rparr> 1 2
   \<and> representable UInt16BE (IntVal 2571)
   \<and> isEncoding ''ascii''
   \<and> inserted \<lparr>length_sb = 3, encoding_sb = ''utf8'', buff = [1, 2, 3, 0],
                 writeOffset = 3, readOffset = 0\<rparr> 1 (encode UInt16BE (IntVal 2571))
        (insertNumber (\<lambda>_. 0) UInt16BE (IntVal 2571) (num 1)
           \<lparr>length_sb = 3, encoding_sb = ''utf8'', buff = [1, 2, 3, 0],
             writeOffset = 3, readOffset = 0\<rparr>)
   \<and> inserted \<lparr>length_sb = 3, encoding_sb = ''utf8'', buff = [1, 2, 3, 0],
                 writeOffset = 3, readOffset = 0\<rparr> 1 [7, 8]
        (insertBuffer (\<lambda>_. 0) [7, 8] (num 1)
           \<lparr>length_sb = 3, encoding_sb = ''utf8'', buff = [1, 2, 3, 0],
             writeOffset = 3, readOffset = 0\<rparr>)
   \<and> inserted \<lparr>length_sb = 3, encoding_sb = ''utf8'', buff = [1, 2, 3, 0],
                 writeOffset = 3, readOffset = 0\<rparr> 1 (latin1_bytes ''ascii'' ''he'')
        (insertString (\<lambda>_. 0) latin1_bytes ''he'' (num 1) (Some ''ascii'')
           \<lparr>length_sb = 3, encoding_sb = ''utf8'', buff = [1, 2, 3, 0],
             writeOffset = 3, readOffset = 0\<rparr>)"
  using insert_splices [of "\<lparr>length_sb = 3, encoding_sb = ''utf8'', buff = [1, 2, 3, 0],
               writeOffset = 3, readOffset = 0\<rparr>" 1 UInt16BE "IntVal 2571" "\<lambda>_. 0" "[7, 8]"
               latin1_bytes "Some ''ascii''" "''he''"]
  by (simp add: insertable_def representable_def isEncoding_def latin1_bytes_def)

text \<open>
  C1 as stated fails past the end: inserting one byte at offset 5 into two managed bytes
  returns with the length 6, not 3.
\<close>

theorem insert_beyond_end_counterexample:
  "fst (insertNumber (\<lambda>_. 0) UInt8 (IntVal 7) (num 5)
          \<lparr>length_sb = 2, encoding_sb = ''utf8'', buff = [1, 2, 0, 0, 0, 0, 0, 0],
            writeOffset = 2, readOffset = 0\<rparr>) = Inr ()
   \<and> length_sb (snd (insertNumber (\<lambda>_. 0) UInt8 (IntVal 7) (num 5)
          \<lparr>length_sb = 2, encoding_sb = ''utf8'', buff = [1, 2, 0, 0, 0, 0, 0, 0],
            writeOffset = 2, readOffset = 0\<rparr>)) = 6
   \<and> length_sb \<lparr>length_sb = 2, encoding_sb = ''utf8'', buff = [1, 2, 0, 0, 0, 0, 0, 0],
            writeOffset = 2, readOffset = 0\<rparr> + int (byteSize UInt8) = 3"
  by code_simp

section \<open>Insertion past the managed bytes\<close>

lemma ensureInsertable_beyond:
  assumes "0 \<le> off" "0 \<le> k" "length_sb s < off"
  shows "ensureInsertable junk k off s
         = (Inr (), s\<lparr>length_sb := off + k,
                       buff := buff (snd (ensureCapacity junk (length_sb s + k) s))\<rparr>)"
proof -
  obtain ext where e: "ensureCapacity junk (length_sb s + k) s = (Inr (), s\<lparr>buff := buff s @ ext\<rparr>)"
    using ensureCapacity_ext[of junk "length_sb s + k" s] by blast
  have chk: "checkOffsetValue (num off) = None" using assms by (simp add: checkOffsetValue_num)
  show ?thesis
    unfolding ensureInsertable_def Let_def using assms by (simp add: chk e)
qed

lemma accepted_beyond_intro:
  assumes "beyond junk s off (int (length bs))"
    and "r = (Inr (), s\<lparr>length_sb := off + int (length bs),
                 buff := put_at (buff (snd (ensureCapacity junk (length_sb s + int (length bs)) s)))
                           (nat off) bs,
                 writeOffset := writeOffset s + int (length bs)\<rparr>)"
  shows "accepted_beyond junk s off bs r"
proof -
  from assms(1) have fit: "nat off + length bs
      \<le> length (buff (snd (ensureCapacity junk (length_sb s + int (length bs)) s)))"
    unfolding beyond_def by linarith
  then have "nat off \<le> length (buff (snd (ensureCapacity junk (length_sb s + int (length bs)) s)))"
    by simp
  then have pre: "take (nat off) (put_at (buff (snd (ensureCapacity junk (length_sb s + int (length bs)) s)))
                           (nat off) bs)
       = take (nat off) (buff (snd (ensureCapacity junk (length_sb s + int (length bs)) s)))"
    by (simp add: put_at_def)
  show ?thesis
    unfolding accepted_beyond_def assms(2)
    using pre take_drop_put_at[OF fit] by simp
qed

lemma insertNumber_beyond:
  assumes "beyond junk s off (int (byteSize sh))" "representable sh v"
  shows "accepted_beyond junk s off (encode sh v) (insertNumber junk sh v (num off) s)"
proof -
  have b: "beyond junk s off (int (length (encode sh v)))"
    using assms(1) by (simp add: length_encode)
  from assms(1) have off0: "0 \<le> off" and lt: "length_sb s < off"
    and fit: "off + int (byteSize sh)
       \<le> int (length (buff (snd (ensureCapacity junk (length_sb s + int (byteSize sh)) s))))"
    by (simp_all add: beyond_def)
  have k: "(0::int) \<le> int (byteSize sh)" by simp
  note e = ensureInsertable_beyond[OF off0 k lt, of junk]
  note w = buf_write_ok[OF assms(2) off0 fit]
  have r: "insertNumber junk sh v (num off) s
        = (Inr (), s\<lparr>length_sb := off + int (byteSize sh),
             buff := put_at (buff (snd (ensureCapacity junk (length_sb s + int (byteSize sh)) s)))
                       (nat off) (encode sh v),
             writeOffset := writeOffset s + int (byteSize sh)\<rparr>)"
    unfolding insertNumber_def insertNumberValue_def Let_def
    using off0 by (simp add: checkOffsetValue_num toInt_num e w)
  show ?thesis
    by (rule accepted_beyond_intro[OF b]) (simp add: r length_encode)
qed

lemma insertBuffer_beyond:
  assumes "beyond junk s off (int (length bv))"
  shows "accepted_beyond junk s off bv (insertBuffer junk bv (num off) s)"
proof -
  from assms have off0: "0 \<le> off" and lt: "length_sb s < off"
    and fit: "off + int (length bv)
       \<le> int (length (buff (snd (ensureCapacity junk (length_sb s + int (length bv)) s))))"
    by (simp_all add: beyond_def)
  have k: "(0::int) \<le> int (length bv)" by simp
  note e = ensureInsertable_beyond[OF off0 k lt, of junk]
  note w = copy_value_ok[OF off0 fit]
  have n: "(case num off of JSNumber n \<Rightarrow> Some (toInt n) | _ \<Rightarrow> None) = Some off"
    by (simp add: num_def)
  have r: "insertBuffer junk bv (num off) s
        = (Inr (), s\<lparr>length_sb := off + int (length bv),
             buff := put_at (buff (snd (ensureCapacity junk (length_sb s + int (length bv)) s)))
                       (nat off) bv,
             writeOffset := writeOffset s + int (length bv)\<rparr>)"
    unfolding insertBuffer_def handleBuffer_def Let_def n
    using off0 by (simp add: checkOffsetValue_num e w)
  show ?thesis
    by (rule accepted_beyond_intro[OF assms r])
qed

lemma insertString_beyond:
  assumes "beyond junk s off (int (length (enc e v)))"
    and "e = (case encoding of Some x \<Rightarrow> x | None \<Rightarrow> encoding_sb s)"
    and "\<forall>x. encoding = Some x \<longrightarrow> isEncoding x"
  shows "accepted_beyond junk s off (enc e v) (insertString junk enc v (num off) encoding s)"
proof -
  let ?bs = "enc e v"
  from assms(1) have off0: "0 \<le> off" and lt: "length_sb s < off"
    and fit: "off + int (length ?bs)
       \<le> int (length (buff (snd (ensureCapacity junk (length_sb s + int (length ?bs)) s))))"
    by (simp_all add: beyond_def)
  have k: "(0::int) \<le> int (length ?bs)" by simp
  note en = ensureInsertable_beyond[OF off0 k lt, of junk]
  note w = write_str_ok[OF off0 fit]
  have n: "(case num off of JSNumber n \<Rightarrow> ArgOffset (toInt n) | _ \<Rightarrow> ArgUndefined) = ArgOffset off"
    by (simp add: num_def)
  have ev: "(case encoding of
               Some x \<Rightarrow> (case checkEncoding x of Some err \<Rightarrow> Inl err | None \<Rightarrow> Inr x)
             | None \<Rightarrow> Inr (encoding_sb s)) = Inr e"
    using assms(2,3) by (cases encoding) (simp_all add: checkEncoding_def)
  have r: "insertString junk enc v (num off) encoding s
        = (Inr (), s\<lparr>length_sb := off + int (length ?bs),
             buff := put_at (buff (snd (ensureCapacity junk (length_sb s + int (length ?bs)) s)))
                       (nat off) ?bs,
             writeOffset := writeOffset s + int (length ?bs)\<rparr>)"
    unfolding insertString_def handleString_def Let_def n
    using off0 by (simp add: checkOffsetValue_num ev en w)
  show ?thesis
    by (rule accepted_beyond_intro[OF assms(1) r])
qed

text \<open>
  When the bytes fit in the store that the growth step for \<open>length + k\<close> leaves, an insert
  of \<open>k\<close> bytes at an offset past the managed length returns; the length becomes
  \<open>off + k\<close>, the store before \<open>off\<close>, the gap included, is not written, and the write
  cursor advances by \<open>k\<close>.
\<close>

lemma insert_past_length:
  "(beyond junk s off (int (byteSize sh)) \<and> representable sh v
      \<longrightarrow> accepted_beyond junk s off (encode sh v) (insertNumber junk sh v (num off) s))
   \<and> (beyond junk s off (int (length bv))
      \<longrightarrow> accepted_beyond junk s off bv (insertBuffer junk bv (num off) s))
   \<and> (beyond junk s off
          (int (length (enc (case encoding of Some x \<Rightarrow> x | None \<Rightarrow> encoding_sb s) str)))
        \<and> (\<forall>x. encoding = Some x \<longrightarrow> isEncoding x)
      \<longrightarrow> accepted_beyond junk s off
            (enc (case encoding of Some x \<Rightarrow> x | None \<Rightarrow> encoding_sb s) str)
            (insertString junk enc str (num off) encoding s))"
  using insertNumber_beyond [of junk s off sh v]
        insertBuffer_beyond [of junk s off bv]
        insertString_beyond [of junk s off enc _ str encoding]
  by blast

lemma insert_past_length_example:
  "beyond (\<lambda>_. 0) \<lparr>length_sb = 2, encoding_sb = ''utf8'', buff = [1, 2, 9, 9, 9, 9, 9, 9],
               writeOffset = 2, readOffset = 0\<rparr> 4 2
   \<and> representable UInt16BE (IntVal 2571)
   \<and> isEncoding ''ascii''
   \<and> accepted_beyond (\<lambda>_. 0) \<lparr>length_sb = 2, encoding_sb = ''utf8'', buff = [1, 2, 9, 9, 9, 9, 9, 9],
                 writeOffset = 2, readOffset = 0\<rparr> 4 (encode UInt16BE (IntVal 2571))
        (insertNumber (\<lambda>_. 0) UInt16BE (IntVal 2571) (num 4)
           \<lparr>length_sb = 2, encoding_sb = ''utf8'', buff = [1, 2, 9, 9, 9, 9, 9, 9],
             writeOffset = 2, readOffset = 0\<rparr>)
   \<and> accepted_beyond (\<lambda>_. 0) \<lparr>length_sb = 2, encoding_sb = ''utf8'', buff = [1, 2, 9, 9, 9, 9, 9, 9],
                 writeOffset = 2, readOffset = 0\<rparr> 4 [7, 8]
        (insertBuffer (\<lambda>_. 0) [7, 8] (num 4)
           \<lparr>length_sb = 2, encoding_sb = ''utf8'', buff = [1, 2, 9, 9, 9, 9, 9, 9],
             writeOffset = 2, readOffset = 0\<rparr>)
   \<and> accepted_beyond (\<lambda>_. 0) \<lparr>length_sb = 2, encoding_sb = ''utf8'', buff = [1, 2, 9, 9, 9, 9, 9, 9],
                 writeOffset = 2, readOffset = 0\<rparr> 4 (latin1_bytes ''ascii'' ''he'')
        (insertString (\<lambda>_. 0) latin1_bytes ''he'' (num 4) (Some ''ascii'')
           \<lparr>length_sb = 2, encoding_sb = ''utf8'', buff = [1, 2, 9, 9, 9, 9, 9, 9],
             writeOffset = 2, readOffset = 0\<rparr>)"
  using insert_past_length [of "\<lambda>_. 0" "\<lparr>length_sb = 2, encoding_sb = ''utf8'',
               buff = [1, 2, 9, 9, 9, 9, 9, 9],
               writeOffset = 2, readOffset = 0\<rparr>" 4 UInt16BE "IntVal 2571" "[7, 8]"
               latin1_bytes "Some ''ascii''" "''he''"]
  by (simp add: beyond_def representable_def isEncoding_def latin1_bytes_def ensureCapacity_def)

text \<open>
  C10.  An insert past the managed length is not accepted whenever its offset passes
  validation: \<open>ensureInsertable\<close> reserves room for \<open>length + k\<close> bytes only, yet sets the
  length to \<open>off + k\<close>.  On a two-byte store the growth step for \<open>2 + 1\<close> gives four bytes;
  the insert of one byte at offset 10 then throws the platform's RangeError, as a number
  and as a string, with the length already 11 over a four-byte store, and as a byte run it
  returns with the length 11 and the byte nowhere in the store.  The sibling write at the
  same offset reserves \<open>off + k\<close> bytes and succeeds.
\<close>

theorem insert_past_capacity_throws:
  "insertNumber (\<lambda>_. 0) UInt8 (IntVal 7) (num 10)
     \<lparr>length_sb = 2, encoding_sb = ''utf8'', buff = [1, 2], writeOffset = 2, readOffset = 0\<rparr>
   = (Inl ERR_OUT_OF_RANGE,
      \<lparr>length_sb = 11, encoding_sb = ''utf8'', buff = [1, 2, 0, 0], writeOffset = 2,
        readOffset = 0\<rparr>)
   \<and> insertString (\<lambda>_. 0) latin1_bytes ''a'' (num 10) None
     \<lparr>length_sb = 2, encoding_sb = ''utf8'', buff = [1, 2], writeOffset = 2, readOffset = 0\<rparr>
   = (Inl ERR_OUT_OF_RANGE,
      \<lparr>length_sb = 11, encoding_sb = ''utf8'', buff = [1, 2, 0, 0], writeOffset = 2,
        readOffset = 0\<rparr>)
   \<and> insertBuffer (\<lambda>_. 0) [7] (num 10)
     \<lparr>length_sb = 2, encoding_sb = ''utf8'', buff = [1, 2], writeOffset = 2, readOffset = 0\<rparr>
   = (Inr (),
      \<lparr>length_sb = 11, encoding_sb = ''utf8'', buff = [1, 2, 0, 0], writeOffset = 3,
        readOffset = 0\<rparr>)
   \<and> writeNumber (\<lambda>_. 0) UInt8 (IntVal 7) (num 10)
     \<lparr>length_sb = 2, encoding_sb = ''utf8'', buff = [1, 2], writeOffset = 2, readOffset = 0\<rparr>
   = (Inr (),
      \<lparr>length_sb = 11, encoding_sb = ''utf8'', buff = [1, 2, 0, 0, 0, 0, 0, 0, 0, 0, 7],
        writeOffset = 11, readOffset = 0\<rparr>)"
  by code_simp

section \<open>Writes at an explicit offset\<close>

lemma writeNumber_at:
  assumes "0 \<le> off" "representable sh v"
  shows "written_at s off (int (byteSize sh)) (writeNumber junk sh v (num off) s)"
proof -
  let ?k = "int (byteSize sh)"
  obtain ext where e: "ensureWriteable junk ?k (Some off) s
           = (Inr (), s\<lparr>length_sb := max (length_sb s) (off + ?k), buff := buff s @ ext\<rparr>)"
    and fit: "off + ?k \<le> int (length (buff s @ ext))"
    using ensureWriteable_res[of junk ?k off s] by blast
  note w = buf_write_ok[OF assms(2,1) fit]
  have lt: "\<not> js_lt0 (Finite (of_int off))" using assms(1) by simp
  show ?thesis
    unfolding written_at_def writeNumber_def writeNumberValue_def Let_def
    using assms(1) lt checkOffsetValue_num[of off]
    by (simp add: num_def e w)
qed

lemma writeBuffer_at:
  assumes "0 \<le> off"
  shows "written_at s off (int (length bv)) (writeBuffer junk bv (Some off) s)"
proof -
  let ?k = "int (length bv)"
  obtain ext where e: "ensureWriteable junk ?k (Some off) s
           = (Inr (), s\<lparr>length_sb := max (length_sb s) (off + ?k), buff := buff s @ ext\<rparr>)"
    and fit: "off + ?k \<le> int (length (buff s @ ext))"
    using ensureWriteable_res[of junk ?k off s] by blast
  note w = copy_value_ok[OF assms fit]
  show ?thesis
    unfolding written_at_def writeBuffer_def handleBuffer_def Let_def
    by (simp add: e w)
qed

lemma writeString_at:
  assumes "0 \<le> off"
    and "e = (case encoding of Some x \<Rightarrow> x | None \<Rightarrow> encoding_sb s)"
    and "\<forall>x. encoding = Some x \<longrightarrow> isEncoding x"
  shows "written_at s off (int (length (enc e v)))
           (writeString junk enc v (ArgOffset off) encoding s)"
proof -
  let ?k = "int (length (enc e v))"
  obtain ext where en: "ensureWriteable junk ?k (Some off) s
           = (Inr (), s\<lparr>length_sb := max (length_sb s) (off + ?k), buff := buff s @ ext\<rparr>)"
    and fit: "off + ?k \<le> int (length (buff s @ ext))"
    using ensureWriteable_res[of junk ?k off s] by blast
  note w = write_str_ok[OF assms(1) fit]
  have ev: "(case encoding of
               Some x \<Rightarrow> (case checkEncoding x of Some err \<Rightarrow> Inl err | None \<Rightarrow> Inr x)
             | None \<Rightarrow> Inr (encoding_sb s)) = Inr e"
    using assms(2,3) by (cases encoding) (simp_all add: checkEncoding_def)
  show ?thesis
    unfolding written_at_def writeString_def handleString_def Let_def
    by (simp add: ev en w)
qed

text \<open>
  C6.  A write at an explicit non-negative offset returns and leaves the write cursor at
  the larger of its former value and \<open>offset + bytes written\<close>, and the length likewise:
  for every number shape and representable value, for a byte run, and for a string in a
  supported encoding.  In particular, on a buffer of length 5 with the write cursor at 5,
  two bytes written at offset 0 leave the cursor at 5, and two bytes written at offset 10
  make the length 12 and the cursor 12.
\<close>

theorem explicit_offset_write_cursor:
  "(0 \<le> off \<and> representable sh v
      \<longrightarrow> written_at s off (int (byteSize sh)) (writeNumber junk sh v (num off) s))
   \<and> (0 \<le> off \<longrightarrow> written_at s off (int (length bv)) (writeBuffer junk bv (Some off) s))
   \<and> (0 \<le> off \<and> (\<forall>x. encoding = Some x \<longrightarrow> isEncoding x)
      \<longrightarrow> written_at s off
            (int (length (enc (case encoding of Some x \<Rightarrow> x | None \<Rightarrow> encoding_sb s) str)))
            (writeString junk enc str (ArgOffset off) encoding s))
   \<and> (length_sb s = 5 \<and> writeOffset s = 5
      \<longrightarrow> writeOffset (snd (writeBuffer junk [a, b] (Some 0) s)) = 5
        \<and> length_sb (snd (writeBuffer junk [a, b] (Some 10) s)) = 12
        \<and> writeOffset (snd (writeBuffer junk [a, b] (Some 10) s)) = 12)"
  using writeNumber_at [where off = off and sh = sh and v = v and s = s and junk = junk]
        writeBuffer_at [where off = off and s = s and bv = bv and junk = junk]
        writeString_at [where off = off and encoding = encoding and s = s and enc = enc
          and v = str and junk = junk]
        writeBuffer_at [where off = 0 and s = s and bv = "[a, b]" and junk = junk]
        writeBuffer_at [where off = 10 and s = s and bv = "[a, b]" and junk = junk]
  by (simp add: written_at_def)



theorem explicit_offset_write_cursor_witness:
  "(0::int) \<le> 10 \<and> representable UInt16BE (IntVal 258) \<and> isEncoding ''ascii''
   \<and> written_at \<lparr>length_sb = 5, encoding_sb = ''utf8'', buff = [1, 2, 3, 4, 5, 0, 0, 0],
                   writeOffset = 5, readOffset = 0\<rparr> 10 2
        (writeNumber (\<lambda>_. 0) UInt16BE (IntVal 258) (num 10)
           \<lparr>length_sb = 5, encoding_sb = ''utf8'', buff = [1, 2, 3, 4, 5, 0, 0, 0],
             writeOffset = 5, readOffset = 0\<rparr>)
   \<and> written_at \<lparr>length_sb = 5, encoding_sb = ''utf8'', buff = [1, 2, 3, 4, 5, 0, 0, 0],
                   writeOffset = 5, readOffset = 0\<rparr> 10 2
        (writeBuffer (\<lambda>_. 0) [7, 8] (Some 10)
           \<lparr>length_sb = 5, encoding_sb = ''utf8'', buff = [1, 2, 3, 4, 5, 0, 0, 0],
             writeOffset = 5, readOffset = 0\<rparr>)
   \<and> written_at \<lparr>length_sb = 5, encoding_sb = ''utf8'', buff = [1, 2, 3, 4, 5, 0, 0, 0],
                   writeOffset = 5, readOffset = 0\<rparr> 10 2
        (writeString (\<lambda>_. 0) latin1_bytes ''he'' (ArgOffset 10) (Some ''ascii'')
           \<lparr>length_sb = 5, encoding_sb = ''utf8'', buff = [1, 2, 3, 4, 5, 0, 0, 0],
             writeOffset = 5, readOffset = 0\<rparr>)
   \<and> writeOffset (snd (writeBuffer (\<lambda>_. 0) [7, 8] (Some 0)
           \<lparr>length_sb = 5, encoding_sb = ''utf8'', buff = [1, 2, 3, 4, 5, 0, 0, 0],
             writeOffset = 5, readOffset = 0\<rparr>)) = 5
   \<and> length_sb (snd (writeBuffer (\<lambda>_. 0) [7, 8] (Some 10)
           \<lparr>length_sb = 5, encoding_sb = ''utf8'', buff = [1, 2, 3, 4, 5, 0, 0, 0],
             writeOffset = 5, readOffset = 0\<rparr>)) = 12
   \<and> writeOffset (snd (writeBuffer (\<lambda>_. 0) [7, 8] (Some 10)
           \<lparr>length_sb = 5, encoding_sb = ''utf8'', buff = [1, 2, 3, 4, 5, 0, 0, 0],
             writeOffset = 5, readOffset = 0\<rparr>)) = 12"
  using explicit_offset_write_cursor [where off = 10 and sh = UInt16BE and v = "IntVal 258"
      and s = "\<lparr>length_sb = 5, encoding_sb = ''utf8'', buff = [1, 2, 3, 4, 5, 0, 0, 0],
                 writeOffset = 5, readOffset = 0\<rparr>"
      and junk = "\<lambda>_. 0" and bv = "[7, 8]" and encoding = "Some ''ascii''"
      and enc = latin1_bytes and str = "''he''" and a = 7 and b = 8]
  by (simp add: representable_def isEncoding_def latin1_bytes_def)

section \<open>Reading byte runs and strings\<close>

lemma slice_inside:
  assumes "0 \<le> a" "a \<le> e" "e \<le> int (length b)"
  shows "slice b a e = take (nat (e - a)) (drop (nat a) b)"
proof -
  have s: "(if a < 0 then max (int (length b) + a) 0 else min a (int (length b))) = a"
    using assms by simp
  have e: "(if e < 0 then max (int (length b) + e) 0 else min e (int (length b))) = e"
    using assms by simp
  show ?thesis unfolding slice_def Let_def s e using assms by simp
qed

lemma slice_live:
  assumes "0 \<le> a" "a \<le> e" "e \<le> L" "L \<le> int (length b)"
  shows "slice b a e = slice (take (nat L) b) a e"
proof -
  have l: "int (length (take (nat L) b)) = L" using assms by simp
  have e1: "e \<le> int (length b)" using assms by simp
  have e2: "e \<le> int (length (take (nat L) b))" unfolding l using assms by simp
  have m: "min (nat (e - a)) (nat L - nat a) = nat (e - a)" using assms by simp
  have "take (nat (e - a)) (drop (nat a) (take (nat L) b))
        = take (nat (e - a)) (take (nat L - nat a) (drop (nat a) b))"
    by (simp only: drop_take)
  also have "\<dots> = take (nat (e - a)) (drop (nat a) b)"
    by (simp only: take_take m)
  finally show ?thesis
    unfolding slice_inside[OF assms(1,2) e1] slice_inside[OF assms(1,2) e2] by simp
qed

lemma length_slice:
  assumes "0 \<le> a" "a \<le> e" "e \<le> int (length b)"
  shows "int (length (slice b a e)) = e - a"
  unfolding slice_inside[OF assms] using assms by simp

lemma readBuffer_run:
  assumes "read_ready s" "0 \<le> n"
  shows "readBuffer (num n) s
         = (Inr (slice (toBuffer s) (readOffset s) (min (readOffset s + n) (length_sb s))),
            s\<lparr>readOffset := min (readOffset s + n) (length_sb s)\<rparr>)"
proof -
  from assms(1) have inv: "0 \<le> readOffset s" "readOffset s \<le> length_sb s"
    "length_sb s \<le> int (length (buff s))" "0 \<le> length_sb s"
    by (auto simp: read_ready_def)
  have chk: "checkLengthValue (num n) = None"
    using assms(2) by (simp add: checkLengthValue_def checkOffsetOrLengthValue_def num_def
        isFiniteInteger_def isInteger_def isFinite_def)
  have sl: "slice (buff s) (readOffset s) (min (length_sb s) (readOffset s + n))
            = slice (toBuffer s) (readOffset s) (min (length_sb s) (readOffset s + n))"
    unfolding toBuffer_take[OF inv(4)]
    by (rule slice_live[OF inv(1) _ _ inv(3)]) (use inv assms(2) in simp_all)
  have cm: "min (readOffset s + n) (length_sb s) = min (length_sb s) (readOffset s + n)"
    by (rule min.commute)
  show ?thesis
    unfolding readBuffer_def Let_def cm using chk sl
    by (simp add: num_def)
qed

lemma readString_run:
  assumes "read_ready s" "0 \<le> n" "\<forall>x. encoding = Some x \<longrightarrow> isEncoding x"
  shows "readString dec (num n) encoding s
         = (Inr (dec (case encoding of Some x \<Rightarrow> x | None \<Rightarrow> encoding_sb s)
                   (slice (toBuffer s) (readOffset s) (readOffset s + min n (remaining s)))),
            s\<lparr>readOffset := readOffset s + min n (remaining s)\<rparr>)"
proof -
  from assms(1) have inv: "0 \<le> readOffset s" "readOffset s \<le> length_sb s"
    "length_sb s \<le> int (length (buff s))" "0 \<le> length_sb s"
    by (auto simp: read_ready_def)
  have chk: "checkLengthValue (num n) = None"
    using assms(2) by (simp add: checkLengthValue_def checkOffsetOrLengthValue_def num_def
        isFiniteInteger_def isInteger_def isFinite_def)
  have ce: "(case encoding of Some e \<Rightarrow> checkEncoding e | None \<Rightarrow> None) = None"
    using assms(3) by (cases encoding) (simp_all add: checkEncoding_def)
  have sl: "slice (buff s) (readOffset s) (readOffset s + min n (length_sb s - readOffset s))
            = slice (toBuffer s) (readOffset s) (readOffset s + min n (length_sb s - readOffset s))"
    unfolding toBuffer_take[OF inv(4)]
    by (rule slice_live[OF inv(1) _ _ inv(3)]) (use inv assms(2) in simp_all)
  show ?thesis
    unfolding readString_def Let_def remaining_def using chk sl
    by (simp add: num_def ce)
qed

lemma readString_all:
  assumes "read_ready s"
  shows "readString dec JSUndefined encoding s
         = (Inr (dec (encoding_sb s) (slice (toBuffer s) (readOffset s) (length_sb s))),
            s\<lparr>readOffset := length_sb s\<rparr>)"
proof -
  from assms(1) have inv: "0 \<le> readOffset s" "readOffset s \<le> length_sb s"
    "length_sb s \<le> int (length (buff s))" "0 \<le> length_sb s"
    by (auto simp: read_ready_def)
  have sl: "slice (buff s) (readOffset s) (length_sb s)
            = slice (toBuffer s) (readOffset s) (length_sb s)"
    unfolding toBuffer_take[OF inv(4)]
    by (rule slice_live[OF inv(1,2) _ inv(3)]) simp
  show ?thesis
    using sl unfolding readString_def Let_def
    by simp
qed

text \<open>
  On a state whose read cursor lies within \<open>[0, length]\<close> and whose length lies within the
  store, \<open>readBuffer(n)\<close> for a non-negative integer \<open>n\<close> returns exactly the managed
  bytes from the read cursor up to \<open>min (readOffset + n) length\<close>, advances the cursor by
  the number of bytes returned, and leaves it within the length; \<open>readString\<close> with the
  length \<open>n\<close> decodes the bytes from the cursor on, at most \<open>n\<close> and at most
  \<open>remaining()\<close> of them, and with the length omitted decodes all the remaining bytes.
\<close>

lemma reads_clamp_to_remaining:
  assumes "read_ready s" "0 \<le> n"
  shows "fst (readBuffer (num n) s)
           = Inr (slice (toBuffer s) (readOffset s) (min (readOffset s + n) (length_sb s)))
       \<and> readOffset (snd (readBuffer (num n) s))
           = readOffset s
             + int (length (slice (toBuffer s) (readOffset s)
                              (min (readOffset s + n) (length_sb s))))
       \<and> readOffset (snd (readBuffer (num n) s)) \<le> length_sb (snd (readBuffer (num n) s))
       \<and> ((\<forall>x. encoding = Some x \<longrightarrow> isEncoding x) \<longrightarrow>
            readString dec (num n) encoding s
             = (Inr (dec (case encoding of Some x \<Rightarrow> x | None \<Rightarrow> encoding_sb s)
                       (slice (toBuffer s) (readOffset s) (readOffset s + min n (remaining s)))),
                s\<lparr>readOffset := readOffset s + min n (remaining s)\<rparr>))
       \<and> readString dec JSUndefined encoding s
             = (Inr (dec (encoding_sb s) (slice (toBuffer s) (readOffset s) (length_sb s))),
                s\<lparr>readOffset := length_sb s\<rparr>)"
proof -
  from assms(1) have i: "0 \<le> readOffset s" "readOffset s \<le> length_sb s"
    "length_sb s \<le> int (length (buff s))" "0 \<le> length_sb s"
    by (auto simp: read_ready_def)
  have ltb: "int (length (toBuffer s)) = length_sb s"
    using i by (simp add: toBuffer_take)
  have len: "int (length (slice (toBuffer s) (readOffset s) (min (readOffset s + n) (length_sb s))))
             = min (readOffset s + n) (length_sb s) - readOffset s"
    by (rule length_slice) (use i assms(2) ltb in simp_all)
  have b1: "fst (readBuffer (num n) s)
           = Inr (slice (toBuffer s) (readOffset s) (min (readOffset s + n) (length_sb s)))"
    by (simp add: readBuffer_run[OF assms])
  have b2: "readOffset (snd (readBuffer (num n) s))
           = readOffset s
             + int (length (slice (toBuffer s) (readOffset s)
                              (min (readOffset s + n) (length_sb s))))"
    unfolding len by (simp add: readBuffer_run[OF assms])
  have b3: "readOffset (snd (readBuffer (num n) s)) \<le> length_sb (snd (readBuffer (num n) s))"
    by (simp add: readBuffer_run[OF assms])
  show ?thesis
    using b1 b2 b3 readString_run[OF assms, of encoding dec] readString_all[OF assms(1), of dec encoding]
    by blast
qed

lemma reads_clamp_to_remaining_example:
  "read_ready \<lparr>length_sb = 4, encoding_sb = ''utf8'', buff = [97, 98, 99, 100, 0, 0],
               writeOffset = 4, readOffset = 1\<rparr>
   \<and> (0::int) \<le> 10 \<and> isEncoding ''ascii''
   \<and> fst (readBuffer (num 10)
        \<lparr>length_sb = 4, encoding_sb = ''utf8'', buff = [97, 98, 99, 100, 0, 0],
          writeOffset = 4, readOffset = 1\<rparr>) = Inr [98, 99, 100]
   \<and> readOffset (snd (readBuffer (num 10)
        \<lparr>length_sb = 4, encoding_sb = ''utf8'', buff = [97, 98, 99, 100, 0, 0],
          writeOffset = 4, readOffset = 1\<rparr>)) = 4
   \<and> readString latin1 (num 10) (Some ''ascii'')
        \<lparr>length_sb = 4, encoding_sb = ''utf8'', buff = [97, 98, 99, 100, 0, 0],
          writeOffset = 4, readOffset = 1\<rparr>
       = (Inr (latin1 ''ascii'' [98, 99, 100]),
          \<lparr>length_sb = 4, encoding_sb = ''utf8'', buff = [97, 98, 99, 100, 0, 0],
            writeOffset = 4, readOffset = 4\<rparr>)
   \<and> readString latin1 JSUndefined None
        \<lparr>length_sb = 4, encoding_sb = ''utf8'', buff = [97, 98, 99, 100, 0, 0],
          writeOffset = 4, readOffset = 1\<rparr>
       = (Inr (latin1 ''utf8'' [98, 99, 100]),
          \<lparr>length_sb = 4, encoding_sb = ''utf8'', buff = [97, 98, 99, 100, 0, 0],
            writeOffset = 4, readOffset = 4\<rparr>)"
  using reads_clamp_to_remaining [where n = 10 and encoding = "Some ''ascii''" and dec = latin1
      and s = "\<lparr>length_sb = 4, encoding_sb = ''utf8'', buff = [97, 98, 99, 100, 0, 0],
                 writeOffset = 4, readOffset = 1\<rparr>"]
        reads_clamp_to_remaining [where n = 10 and encoding = None and dec = latin1
      and s = "\<lparr>length_sb = 4, encoding_sb = ''utf8'', buff = [97, 98, 99, 100, 0, 0],
                 writeOffset = 4, readOffset = 1\<rparr>"]
  by (simp add: read_ready_def isEncoding_def toBuffer_def slice_def remaining_def)

section \<open>Where the code departs from its contract\<close>

text \<open>
  C2.  The cursor invariant does not survive a null-terminated read that finds no zero
  byte: on the one-byte buffer \<open>[0x61]\<close>, which satisfies the invariant, \<open>readStringNT\<close>
  and \<open>readBufferNT\<close> leave the read cursor at 2, beyond the length 1, a value the setter
  of the read cursor itself rejects.
\<close>

theorem readStringNT_passes_the_end:
  "fromBuffer (\<lambda>_. 0) [97] None
     = Inr \<lparr>length_sb = 1, encoding_sb = ''utf8'', buff = [97], writeOffset = 0, readOffset = 0\<rparr>
   \<and> invariant \<lparr>length_sb = 1, encoding_sb = ''utf8'', buff = [97], writeOffset = 0,
                 readOffset = 0\<rparr>
   \<and> readStringNT latin1 None
        \<lparr>length_sb = 1, encoding_sb = ''utf8'', buff = [97], writeOffset = 0, readOffset = 0\<rparr>
       = (Inr ''a'',
          \<lparr>length_sb = 1, encoding_sb = ''utf8'', buff = [97], writeOffset = 0, readOffset = 2\<rparr>)
   \<and> readBufferNT
        \<lparr>length_sb = 1, encoding_sb = ''utf8'', buff = [97], writeOffset = 0, readOffset = 0\<rparr>
       = (Inr [97],
          \<lparr>length_sb = 1, encoding_sb = ''utf8'', buff = [97], writeOffset = 0, readOffset = 2\<rparr>)
   \<and> \<not> invariant \<lparr>length_sb = 1, encoding_sb = ''utf8'', buff = [97], writeOffset = 0,
                   readOffset = 2\<rparr>
   \<and> fst (set_readOffset (num 2)
        \<lparr>length_sb = 1, encoding_sb = ''utf8'', buff = [97], writeOffset = 0, readOffset = 0\<rparr>)
       = Inl INVALID_TARGET_OFFSET"
  by code_simp

text \<open>
  C3.  On the bytes \<open>[0x61, 0x62, 0x00, 0x63]\<close> the first \<open>readStringNT\<close> returns
  \<open>ab\<close> and leaves the read cursor at 3; the second returns \<open>c\<close> and leaves it at 5,
  one past the length.
\<close>

theorem readStringNT_second_call:
  "fromBuffer (\<lambda>_. 0) [97, 98, 0, 99] None
     = Inr \<lparr>length_sb = 4, encoding_sb = ''utf8'', buff = [97, 98, 0, 99], writeOffset = 0,
             readOffset = 0\<rparr>
   \<and> readStringNT latin1 None
        \<lparr>length_sb = 4, encoding_sb = ''utf8'', buff = [97, 98, 0, 99], writeOffset = 0,
          readOffset = 0\<rparr>
       = (Inr ''ab'',
          \<lparr>length_sb = 4, encoding_sb = ''utf8'', buff = [97, 98, 0, 99], writeOffset = 0,
            readOffset = 3\<rparr>)
   \<and> readStringNT latin1 None
        \<lparr>length_sb = 4, encoding_sb = ''utf8'', buff = [97, 98, 0, 99], writeOffset = 0,
          readOffset = 3\<rparr>
       = (Inr ''c'',
          \<lparr>length_sb = 4, encoding_sb = ''utf8'', buff = [97, 98, 0, 99], writeOffset = 0,
            readOffset = 5\<rparr>)"
  by code_simp

text \<open>
  C8.  The reads do not return the bytes up to \<open>min (readOffset + n) length\<close> and advance
  by the bytes returned on every state the code reaches.  After a \<open>readStringNT\<close> that
  found no zero byte the read cursor is 2 on the length 1; there \<open>readBuffer(1)\<close> and
  \<open>readString(1)\<close> return nothing and move the cursor back to 1.  After an \<open>insertBuffer\<close>
  at offset 10 into a two-byte store the length is 11 over four bytes; there
  \<open>readBuffer(10)\<close> returns four bytes and advances the cursor by 10.
\<close>

theorem reads_on_states_the_code_reaches:
  "readStringNT latin1 None
      \<lparr>length_sb = 1, encoding_sb = ''utf8'', buff = [97], writeOffset = 0, readOffset = 0\<rparr>
     = (Inr ''a'',
        \<lparr>length_sb = 1, encoding_sb = ''utf8'', buff = [97], writeOffset = 0, readOffset = 2\<rparr>)
   \<and> readBuffer (num 1)
      \<lparr>length_sb = 1, encoding_sb = ''utf8'', buff = [97], writeOffset = 0, readOffset = 2\<rparr>
     = (Inr [],
        \<lparr>length_sb = 1, encoding_sb = ''utf8'', buff = [97], writeOffset = 0, readOffset = 1\<rparr>)
   \<and> readString latin1 (num 1) None
      \<lparr>length_sb = 1, encoding_sb = ''utf8'', buff = [97], writeOffset = 0, readOffset = 2\<rparr>
     = (Inr [],
        \<lparr>length_sb = 1, encoding_sb = ''utf8'', buff = [97], writeOffset = 0, readOffset = 1\<rparr>)
   \<and> insertBuffer (\<lambda>_. 0) [7] (num 10)
      \<lparr>length_sb = 2, encoding_sb = ''utf8'', buff = [1, 2], writeOffset = 2, readOffset = 0\<rparr>
     = (Inr (),
        \<lparr>length_sb = 11, encoding_sb = ''utf8'', buff = [1, 2, 0, 0], writeOffset = 3,
          readOffset = 0\<rparr>)
   \<and> readBuffer (num 10)
      \<lparr>length_sb = 11, encoding_sb = ''utf8'', buff = [1, 2, 0, 0], writeOffset = 3,
        readOffset = 0\<rparr>
     = (Inr [1, 2, 0, 0],
        \<lparr>length_sb = 11, encoding_sb = ''utf8'', buff = [1, 2, 0, 0], writeOffset = 3,
          readOffset = 10\<rparr>)"
  by code_simp

text \<open>
  C7.  A failing call can leave the buffer changed: on an empty buffer of capacity 4,
  \<open>writeBuffer\<close> and \<open>writeString\<close> of three bytes at the offset \<open>-1\<close> throw the
  platform's RangeError after the length has become 2.  The number writes check the
  offset first, and throw with the state untouched.
\<close>

theorem write_at_negative_offset_mutates:
  "fromSize (\<lambda>_. 0) (Finite 4) None
     = Inr \<lparr>length_sb = 0, encoding_sb = ''utf8'', buff = [0, 0, 0, 0], writeOffset = 0,
             readOffset = 0\<rparr>
   \<and> writeBuffer (\<lambda>_. 0) [1, 2, 3] (Some (- 1))
        \<lparr>length_sb = 0, encoding_sb = ''utf8'', buff = [0, 0, 0, 0], writeOffset = 0,
          readOffset = 0\<rparr>
       = (Inl ERR_OUT_OF_RANGE,
          \<lparr>length_sb = 2, encoding_sb = ''utf8'', buff = [0, 0, 0, 0], writeOffset = 0,
            readOffset = 0\<rparr>)
   \<and> writeString (\<lambda>_. 0) latin1_bytes ''abc'' (ArgOffset (- 1)) None
        \<lparr>length_sb = 0, encoding_sb = ''utf8'', buff = [0, 0, 0, 0], writeOffset = 0,
          readOffset = 0\<rparr>
       = (Inl ERR_OUT_OF_RANGE,
          \<lparr>length_sb = 2, encoding_sb = ''utf8'', buff = [0, 0, 0, 0], writeOffset = 0,
            readOffset = 0\<rparr>)
   \<and> fst (writeNumber (\<lambda>_. 0) UInt16BE (IntVal 20) (num (- 5))
        \<lparr>length_sb = 0, encoding_sb = ''utf8'', buff = [0, 0, 0, 0], writeOffset = 0,
          readOffset = 0\<rparr>) = Inl INVALID_WRITE_BEYOND_BOUNDS
   \<and> snd (writeNumber (\<lambda>_. 0) UInt16BE (IntVal 20) (num (- 5))
        \<lparr>length_sb = 0, encoding_sb = ''utf8'', buff = [0, 0, 0, 0], writeOffset = 0,
          readOffset = 0\<rparr>)
       = \<lparr>length_sb = 0, encoding_sb = ''utf8'', buff = [0, 0, 0, 0], writeOffset = 0,
          readOffset = 0\<rparr>"
  by code_simp

lemma half_is_no_integer: "\<not> isFiniteInteger (Finite (1 / 2))"
proof -
  have "\<lfloor>(1::rat) / 2\<rfloor> = 0" by (rule floor_unique) simp_all
  then show ?thesis by (simp add: isFiniteInteger_def isInteger_def isFinite_def)
qed

text \<open>
  C9.  A size of \<open>0\<close> does not fail construction: it is falsy, so the constructor takes
  it for absent and allocates the default 4096 bytes.  A negative, fractional or infinite
  size is rejected.
\<close>

theorem size_zero_is_accepted:
  "constructor junk (Some \<lparr>encoding_opt = None, size_opt = Some (Finite 0), buff_opt = None\<rparr>)
     = Inr \<lparr>length_sb = 0, encoding_sb = ''utf8'', buff = allocUnsafe junk 4096, writeOffset = 0,
             readOffset = 0\<rparr>
   \<and> fromSize junk (Finite 0) None
     = Inr \<lparr>length_sb = 0, encoding_sb = ''utf8'', buff = allocUnsafe junk 4096, writeOffset = 0,
             readOffset = 0\<rparr>
   \<and> length (allocUnsafe junk 4096) = 4096
   \<and> fromSize junk (Finite (- 100)) None = Inl INVALID_SMARTBUFFER_SIZE
   \<and> fromSize junk (Finite (1 / 2)) None = Inl INVALID_SMARTBUFFER_SIZE
   \<and> fromSize junk PosInfinity None = Inl INVALID_SMARTBUFFER_SIZE"
  by (simp add: fromSize_def constructor_def isSmartBufferOptions_def DEFAULT_SMARTBUFFER_SIZE_def
      DEFAULT_SMARTBUFFER_ENCODING_def length_allocUnsafe half_is_no_integer)
     (simp add: isFiniteInteger_def isInteger_def isFinite_def)

end
